theory Spec2Isabelle
  imports Complex_Main
begin

section \<open>The battle simulator of rrobot/game.py\<close>

text \<open>
  A shallow embedding of the class \<^verbatim>\<open>Game\<close> of \<^verbatim>\<open>src/rrobot/game.py\<close>.
  Python floats are idealised as reals. The modules \<^verbatim>\<open>rrobot.settings\<close> and
  \<^verbatim>\<open>rrobot.maths\<close> are imported by the file but are not part of it: the settings
  dictionary and the three geometry helpers are parameters of every definition below.
  The robot classes are external as well: a controller is seen through the
  notifications the game sends to it and the commands it issues while it handles one.
\<close>

subsection \<open>Data\<close>

type_synonym point = "real \<times> real"

text \<open>
  The keys of the dictionary \<^verbatim>\<open>settings\<close> that game.py reads. The bounds of the
  battlefield are integers (they are arguments of \<^verbatim>\<open>randrange\<close>), and so is the peak
  \<^verbatim>\<open>attack_damage\<close>, like the damage it is added to; \<^verbatim>\<open>max_turns\<close> is a natural
  number. The pacing interval \<^verbatim>\<open>radar_interval\<close> and the log level change no state and
  are left out.
\<close>

record settings =
  battlefield_size :: "int \<times> int"
  max_speed :: real
  attack_angle :: real
  attack_damage :: int
  max_turns :: nat

text \<open>
  The three functions game.py imports from \<^verbatim>\<open>rrobot.maths\<close>. \<^verbatim>\<open>seg_intersect\<close>
  returns a point or \<^verbatim>\<open>None\<close>; the source tests its result for truth, and a
  returned pair of coordinates is true.
\<close>

record maths =
  seg_intersect :: "point \<Rightarrow> point \<Rightarrow> point \<Rightarrow> point \<Rightarrow> point option"
  is_in_angle :: "point \<Rightarrow> real \<Rightarrow> real \<Rightarrow> point \<Rightarrow> bool"
  get_inverse_square :: "point \<Rightarrow> point \<Rightarrow> int \<Rightarrow> real"

text \<open>
  One dictionary of \<^verbatim>\<open>self._robots\<close>. The entry \<^verbatim>\<open>'instance'\<close> is the controller
  object; the game reads its class name and its \<^verbatim>\<open>id\<close>, which is the index the
  constructor was given, that is the robot's position in \<^verbatim>\<open>self._robots\<close>. The
  model keeps the class name and identifies a robot by that index.
\<close>

record robot =
  instance_name :: string
  coords :: point
  speed :: real
  damage :: int
  heading :: real
  then_t :: "real option"

text \<open>The notifications the game sends: the receiving robot and the value sent.\<close>

datatype event =
  Started nat point
| Radar_updated nat "(string \<times> point) list"
| Attacked nat string
| Bumped nat string

text \<open>
  The game object: \<^verbatim>\<open>self._turn\<close> and \<^verbatim>\<open>self._robots\<close>, and the notifications
  sent so far, oldest first.
\<close>

record game =
  turn :: nat
  robots :: "robot list"
  events :: "event list"

datatype error = IndexError | KeyError | TypeError | ValueError

text \<open>
  What a controller does while it handles a notification: it calls \<^verbatim>\<open>set_heading\<close>,
  \<^verbatim>\<open>set_speed\<close> and \<^verbatim>\<open>attack\<close> with its own id. An attack notifies the robots it
  hits, whose controllers answer in turn before the attack goes on; \<open>Attack rs\<close>
  carries those answers, one command list for each notification in the order sent
  (a missing answer is the empty one).
\<close>

datatype command = Set_heading real | Set_speed real | Attack "command list list"

subsection \<open>Accessors and commands\<close>

definition set_heading :: "nat \<Rightarrow> real \<Rightarrow> game \<Rightarrow> error + game" where
  "set_heading robot_id rads g =
     (if robot_id < length (robots g)
      then Inr (g\<lparr>robots := (robots g)[robot_id := (robots g ! robot_id)\<lparr>heading := rads\<rparr>]\<rparr>)
      else Inl IndexError)"

definition set_speed :: "settings \<Rightarrow> nat \<Rightarrow> real \<Rightarrow> game \<Rightarrow> error + game" where
  "set_speed st robot_id mps g =
     (let mps = min mps (max_speed st)
      in if robot_id < length (robots g)
         then Inr (g\<lparr>robots := (robots g)[robot_id := (robots g ! robot_id)\<lparr>speed := mps\<rparr>]\<rparr>)
         else Inl IndexError)"

definition get_speed :: "nat \<Rightarrow> game \<Rightarrow> error + real" where
  "get_speed robot_id g =
     (if robot_id < length (robots g) then Inr (speed (robots g ! robot_id)) else Inl IndexError)"

definition get_damage :: "nat \<Rightarrow> game \<Rightarrow> error + int" where
  "get_damage robot_id g =
     (if robot_id < length (robots g) then Inr (damage (robots g ! robot_id)) else Inl IndexError)"

text \<open>
  \<^verbatim>\<open>active_robots\<close> returns the dictionaries themselves, not copies: a caller that
  keeps the list sees later changes of the robots in it. The model returns their
  indices.
\<close>

definition active_robots :: "game \<Rightarrow> nat list" where
  "active_robots g = filter (\<lambda>i. damage (robots g ! i) < 100) [0 ..< length (robots g)]"

subsection \<open>Attack\<close>

text \<open>Python's \<^verbatim>\<open>int\<close> of a float: truncation towards zero.\<close>

definition py_int :: "real \<Rightarrow> int" where
  "py_int x = (if 0 \<le> x then \<lfloor>x\<rfloor> else \<lceil>x\<rceil>)"

text \<open>The value of \<^verbatim>\<open>damage\<close> computed for a target inside the cone (lines 86-92).\<close>

definition attack_amount :: "settings \<Rightarrow> maths \<Rightarrow> robot \<Rightarrow> robot \<Rightarrow> int" where
  "attack_amount st m attacker target =
     (if coords attacker = coords target then attack_damage st
      else py_int (min (of_int (attack_damage st))
                       (get_inverse_square m (coords attacker) (coords target) (attack_damage st))))"

text \<open>
  One pass of the loop body of \<^verbatim>\<open>attack\<close> up to the moment the notification is
  sent: the new game, and whether the target was notified. Both indices are those of
  robots: \<^verbatim>\<open>attack\<close> has looked the attacker up, and the target comes from
  \<^verbatim>\<open>active_robots\<close>.
\<close>

definition attack_target :: "settings \<Rightarrow> maths \<Rightarrow> nat \<Rightarrow> nat \<Rightarrow> game \<Rightarrow> game \<times> bool" where
  "attack_target st m robot_id t g =
     (let attacker = robots g ! robot_id; target = robots g ! t
      in if is_in_angle m (coords attacker) (heading attacker) (attack_angle st) (coords target)
         then (let dmg = attack_amount st m attacker target
               in if dmg \<noteq> 0
                  then (g\<lparr>robots := (robots g)[t := target\<lparr>damage := damage target + dmg\<rparr>],
                          events := events g @ [Attacked t (instance_name attacker)]\<rparr>, True)
                  else (g, False))
         else (g, False))"

text \<open>What one pass adds to the damage of target \<open>t\<close>: nothing outside the cone.\<close>

definition hit_amount :: "settings \<Rightarrow> maths \<Rightarrow> game \<Rightarrow> nat \<Rightarrow> nat \<Rightarrow> int" where
  "hit_amount st m g a t =
     (if is_in_angle m (coords (robots g ! a)) (heading (robots g ! a)) (attack_angle st)
           (coords (robots g ! t))
      then attack_amount st m (robots g ! a) (robots g ! t) else 0)"

text \<open>
  \<open>exec_command\<close> and \<open>exec_commands\<close> run what the controller of robot \<open>i\<close> does
  during one notification. \<open>attack_loop\<close> is the \<^verbatim>\<open>for\<close> loop of \<^verbatim>\<open>attack\<close> over the
  robots that were active when the call began; it reads the attacker and the target
  anew in every pass, as the source does through its references.
\<close>

function exec_command :: "settings \<Rightarrow> maths \<Rightarrow> nat \<Rightarrow> command \<Rightarrow> game \<Rightarrow> error + game"
  and exec_commands :: "settings \<Rightarrow> maths \<Rightarrow> nat \<Rightarrow> command list \<Rightarrow> game \<Rightarrow> error + game"
  and attack_loop :: "settings \<Rightarrow> maths \<Rightarrow> nat \<Rightarrow> nat list \<Rightarrow> command list list \<Rightarrow> game \<Rightarrow> error + game"
where
  "exec_command st m i (Set_heading rads) g = set_heading i rads g"
| "exec_command st m i (Set_speed mps) g = set_speed st i mps g"
| "exec_command st m i (Attack rs) g =
     (if i < length (robots g) then attack_loop st m i (active_robots g) rs g
      else Inl IndexError)"
| "exec_commands st m i [] g = Inr g"
| "exec_commands st m i (c # cs) g =
     (case exec_command st m i c g of Inl e \<Rightarrow> Inl e | Inr g' \<Rightarrow> exec_commands st m i cs g')"
| "attack_loop st m a [] rs g = Inr g"
| "attack_loop st m a (t # ts) [] g =
     attack_loop st m a ts [] (fst (attack_target st m a t g))"
| "attack_loop st m a (t # ts) (r # rs) g =
     (case attack_target st m a t g of
        (g', False) \<Rightarrow> attack_loop st m a ts (r # rs) g'
      | (g', True) \<Rightarrow>
          (case exec_commands st m t r g' of
             Inl e \<Rightarrow> Inl e
           | Inr g'' \<Rightarrow> attack_loop st m a ts rs g''))"
  by pat_completeness auto
termination
  by (relation "inv_image (less_than <*lex*> less_than)
        (\<lambda>x. case x of
           Inl (st, m, i, c, g) \<Rightarrow> (size c, 0)
         | Inr (Inl (st, m, i, cs, g)) \<Rightarrow> (size_list size cs, 0)
         | Inr (Inr (st, m, a, ts, rs, g)) \<Rightarrow> (size_list (size_list size) rs, Suc (length ts)))")
     auto

text \<open>\<^verbatim>\<open>Game.attack\<close>, with the answers of the robots it notifies.\<close>

definition attack :: "settings \<Rightarrow> maths \<Rightarrow> nat \<Rightarrow> command list list \<Rightarrow> game \<Rightarrow> error + game" where
  "attack st m robot_id rs g = exec_command st m robot_id (Attack rs) g"

subsection \<open>Movement\<close>

type_synonym seg = "point \<times> point"

text \<open>The keys of \<^verbatim>\<open>line_segs\<close>: the name of a border, or the id of a robot.\<close>

datatype seg_id = Str string | Int_id nat

text \<open>
  \<^verbatim>\<open>_get_line_seg\<close>. The subtraction \<^verbatim>\<open>now - data['then']\<close> raises TypeError while
  \<^verbatim>\<open>then\<close> is still \<^verbatim>\<open>None\<close>.
\<close>

definition get_line_seg :: "robot \<Rightarrow> real \<Rightarrow> error + seg" where
  "get_line_seg data now =
     (case then_t data of
        None \<Rightarrow> Inl TypeError
      | Some t \<Rightarrow>
          (let (x, y) = coords data;
               t_d = now - t;
               dist = speed data * t_d;
               x_d = cos (heading data) * dist;
               y_d = sin (heading data) * dist;
               (x_new, y_new) = (x + x_d, y + y_d)
           in Inr ((x, y), (x_new, y_new))))"

definition borders :: "settings \<Rightarrow> (seg_id \<times> seg) list" where
  "borders st =
     (let (x_max, y_max) = battlefield_size st
      in [(Str ''left'', ((0, 0), (0, of_int y_max))),
          (Str ''top'', ((0, of_int y_max), (of_int x_max, of_int y_max))),
          (Str ''right'', ((of_int x_max, of_int y_max), (of_int x_max, 0))),
          (Str ''bottom'', ((of_int x_max, 0), (0, 0)))])"

text \<open>
  The entries that the loop at lines 187-188 adds to \<^verbatim>\<open>line_segs\<close>, in the order of
  \<^verbatim>\<open>robots\<close> (a list without repetitions, as \<^verbatim>\<open>active_robots\<close> returns it).
\<close>

fun robot_segs :: "real \<Rightarrow> nat list \<Rightarrow> game \<Rightarrow> error + (seg_id \<times> seg) list" where
  "robot_segs now [] g = Inr []"
| "robot_segs now (i # is) g =
     (case get_line_seg (robots g ! i) now of
        Inl e \<Rightarrow> Inl e
      | Inr s \<Rightarrow>
          (case robot_segs now is g of
             Inl e \<Rightarrow> Inl e
           | Inr ss \<Rightarrow> Inr ((Int_id i, s) # ss)))"

text \<open>
  \<^verbatim>\<open>_get_intersections\<close>: a dictionary from a key to the dictionary of the keys its
  segment meets, each with the point; a key whose segment meets nothing gets no entry.
\<close>

definition intersections_of ::
  "maths \<Rightarrow> (seg_id \<times> seg) list \<Rightarrow> seg_id \<Rightarrow> seg \<Rightarrow> (seg_id \<times> point) list" where
  "intersections_of m line_segs a_id a =
     List.map_filter
       (\<lambda>(b_id, b). if a_id = b_id then None
                     else map_option (Pair b_id) (seg_intersect m (fst a) (snd a) (fst b) (snd b)))
       line_segs"

definition get_intersections ::
  "maths \<Rightarrow> (seg_id \<times> seg) list \<Rightarrow> (seg_id \<times> (seg_id \<times> point) list) list" where
  "get_intersections m line_segs =
     filter (\<lambda>(a_id, found). found \<noteq> [])
       (map (\<lambda>(a_id, a). (a_id, intersections_of m line_segs a_id a)) line_segs)"

text \<open>
  The target \<^verbatim>\<open>(a_id, b_id)\<close> of the two loops over \<^verbatim>\<open>bumps\<close> is bound to a key of
  that dictionary. Unpacking an integer raises TypeError; unpacking a string gives its
  characters and raises ValueError unless there are exactly two.
\<close>

definition unpack_pair :: "seg_id \<Rightarrow> error + string \<times> string" where
  "unpack_pair k =
     (case k of
        Int_id n \<Rightarrow> Inl TypeError
      | Str s \<Rightarrow> (case s of [a, b] \<Rightarrow> Inr ([a], [b]) | _ \<Rightarrow> Inl ValueError))"

text \<open>
  The loops at lines 191-197 and 205-220 over the keys of \<^verbatim>\<open>bumps\<close>. When a key
  unpacks, \<^verbatim>\<open>a_id\<close> is a string, so \<^verbatim>\<open>isinstance(a_id, str)\<close> holds and the pass ends
  at \<^verbatim>\<open>continue\<close>: the statements after it (the clipping of the segment, and
  \<^verbatim>\<open>set_speed(a_id, 0)\<close> with the "bumped" notification) are never reached.
\<close>

fun bumps_loop :: "seg_id list \<Rightarrow> error + unit" where
  "bumps_loop [] = Inr ()"
| "bumps_loop (k # ks) =
     (case unpack_pair k of
        Inl e \<Rightarrow> Inl e
      | Inr (a_id, b_id) \<Rightarrow> bumps_loop ks)"

text \<open>The loop at lines 199-203.\<close>

fun commit_moves :: "(seg_id \<times> seg) list \<Rightarrow> real \<Rightarrow> nat list \<Rightarrow> game \<Rightarrow> error + game" where
  "commit_moves line_segs now [] g = Inr g"
| "commit_moves line_segs now (i # is) g =
     (case map_of line_segs (Int_id i) of
        None \<Rightarrow> Inl KeyError
      | Some s \<Rightarrow>
          commit_moves line_segs now is
            (g\<lparr>robots := (robots g)[i := (robots g ! i)\<lparr>coords := snd s, then_t := Some now\<rparr>]\<rparr>))"

text \<open>\<^verbatim>\<open>_move_robots\<close>; \<open>now\<close> is the reading of the clock at line 179.\<close>

definition move_robots :: "settings \<Rightarrow> maths \<Rightarrow> real \<Rightarrow> nat list \<Rightarrow> game \<Rightarrow> error + game" where
  "move_robots st m now rs g =
     (case robot_segs now rs g of
        Inl e \<Rightarrow> Inl e
      | Inr segs \<Rightarrow>
          (let line_segs = borders st @ segs;
               bumps = get_intersections m line_segs
           in case bumps_loop (map fst bumps) of
                Inl e \<Rightarrow> Inl e
              | Inr u \<Rightarrow>
                  (case commit_moves line_segs now rs g of
                     Inl e \<Rightarrow> Inl e
                   | Inr g' \<Rightarrow>
                       (case bumps_loop (map fst bumps) of
                          Inl e \<Rightarrow> Inl e
                        | Inr u \<Rightarrow> Inr g'))))"

subsection \<open>Radar\<close>

definition radar_of :: "game \<Rightarrow> (string \<times> point) list" where
  "radar_of g = map (\<lambda>r. (instance_name r, coords r)) (robots g)"

text \<open>
  The loop of \<^verbatim>\<open>_update_radar\<close>; \<open>reply i\<close> is what the controller of robot \<open>i\<close>
  does when it gets the radar.
\<close>

fun radar_loop ::
  "settings \<Rightarrow> maths \<Rightarrow> (string \<times> point) list \<Rightarrow> (nat \<Rightarrow> command list) \<Rightarrow> nat list \<Rightarrow> game
     \<Rightarrow> error + game" where
  "radar_loop st m radar reply [] g = Inr g"
| "radar_loop st m radar reply (i # is) g =
     (case exec_commands st m i (reply i) (g\<lparr>events := events g @ [Radar_updated i radar]\<rparr>) of
        Inl e \<Rightarrow> Inl e
      | Inr g' \<Rightarrow> radar_loop st m radar reply is g')"

definition update_radar ::
  "settings \<Rightarrow> maths \<Rightarrow> (nat \<Rightarrow> command list) \<Rightarrow> nat list \<Rightarrow> game \<Rightarrow> error + game" where
  "update_radar st m reply rs g = radar_loop st m (radar_of g) reply rs g"

subsection \<open>What the commands of a controller leave unchanged\<close>

lemma attack_target_length:
  "length (robots (fst (attack_target st m a t g))) = length (robots g)"
  by (simp add: attack_target_def Let_def)

lemma set_heading_length:
  "set_heading i rads g = Inr g' \<Longrightarrow> length (robots g') = length (robots g)"
  by (auto simp: set_heading_def split: if_splits)

lemma set_speed_length:
  "set_speed st i mps g = Inr g' \<Longrightarrow> length (robots g') = length (robots g)"
  by (auto simp: set_speed_def Let_def split: if_splits)

text \<open>
  A property of the game that the two setters and one pass of the attack loop keep
  is kept by everything a controller does; the number of robots never changes.
\<close>

lemma exec_preserves:
  assumes H: "\<And>st m i rads g g'. Q st m g \<Longrightarrow> set_heading i rads g = Inr g' \<Longrightarrow> Q st m g'"
      and S: "\<And>st m i mps g g'. Q st m g \<Longrightarrow> set_speed st i mps g = Inr g' \<Longrightarrow> Q st m g'"
      and A: "\<And>st m a t g. Q st m g \<Longrightarrow> a < length (robots g) \<Longrightarrow> t < length (robots g)
                 \<Longrightarrow> Q st m (fst (attack_target st m a t g))"
  shows "Q st m g \<Longrightarrow> exec_command st m i c g = Inr g'
            \<Longrightarrow> Q st m g' \<and> length (robots g') = length (robots g)"
    and "Q st m g \<Longrightarrow> exec_commands st m i cs g = Inr g'
            \<Longrightarrow> Q st m g' \<and> length (robots g') = length (robots g)"
    and "Q st m g \<Longrightarrow> a < length (robots g) \<Longrightarrow> \<forall>t\<in>set ts. t < length (robots g)
            \<Longrightarrow> attack_loop st m a ts rs g = Inr g'
            \<Longrightarrow> Q st m g' \<and> length (robots g') = length (robots g)"
proof (induction st m i c g and st m i cs g and st m a ts rs g arbitrary: g' and g' and g'
       rule: exec_command_exec_commands_attack_loop.induct)
  case (1 st m i rads g)
  then have e: "set_heading i rads g = Inr g'" by simp
  show ?case using H[OF "1.prems"(1) e] set_heading_length[OF e] by simp
next
  case (2 st m i mps g)
  then have e: "set_speed st i mps g = Inr g'" by simp
  show ?case using S[OF "2.prems"(1) e] set_speed_length[OF e] by simp
next
  case (3 st m i rs g)
  from "3.prems" have i: "i < length (robots g)" by (simp split: if_splits)
  with "3.prems" have e: "attack_loop st m i (active_robots g) rs g = Inr g'" by simp
  have "\<forall>t\<in>set (active_robots g). t < length (robots g)" by (simp add: active_robots_def)
  from "3.IH"[OF i "3.prems"(1) i this e] show ?case .
next
  case (4 st m i g)
  then show ?case by simp
next
  case (5 st m i c cs g)
  from "5.prems"(2) obtain g1 where c: "exec_command st m i c g = Inr g1"
    and cs: "exec_commands st m i cs g1 = Inr g'"
    by (auto split: sum.splits)
  from "5.IH"(1)[OF "5.prems"(1) c] have 1: "Q st m g1" "length (robots g1) = length (robots g)"
    by auto
  from "5.IH"(2)[OF c 1(1) cs] 1(2) show ?case by auto
next
  case (6 st m a rs g)
  then show ?case by simp
next
  case (7 st m a t ts g)
  let ?g1 = "fst (attack_target st m a t g)"
  have q: "Q st m ?g1" using A[of st m g a t] "7.prems" by simp
  have l: "length (robots ?g1) = length (robots g)" by (rule attack_target_length)
  from "7.IH"[OF q, of g'] "7.prems" l show ?case by simp
next
  case (8 st m a t ts r rs g)
  obtain g1 b where e: "attack_target st m a t g = (g1, b)" by (cases "attack_target st m a t g")
  then have g1: "g1 = fst (attack_target st m a t g)" by simp
  have q: "Q st m g1" unfolding g1 using A[of st m g a t] "8.prems" by simp
  have l: "length (robots g1) = length (robots g)" unfolding g1 by (rule attack_target_length)
  show ?case
  proof (cases b)
    case False
    with e "8.prems"(4) have lp: "attack_loop st m a ts (r # rs) g1 = Inr g'" by simp
    from e False have e': "(g1, False) = attack_target st m a t g" by simp
    from "8.IH"(3)[OF e' refl q _ _ lp] "8.prems" l show ?thesis by simp
  next
    case True
    with e "8.prems"(4) obtain g2 where r: "exec_commands st m t r g1 = Inr g2"
      and lp: "attack_loop st m a ts rs g2 = Inr g'"
      by (auto split: sum.splits)
    from e True have e': "(g1, True) = attack_target st m a t g" by simp
    from "8.IH"(1)[OF e' refl q r] "8.prems" l
    have 2: "Q st m g2" "length (robots g2) = length (robots g)" by auto
    from "8.IH"(2)[OF e' refl r 2(1) _ _ lp] "8.prems" 2(2) show ?thesis by simp
  qed
qed

lemma exec_commands_turn:
  assumes "exec_commands st m i cs g = Inr g'"
  shows "turn g' = turn g"
proof -
  have "turn g' = turn g \<and> length (robots g') = length (robots g)"
    by (rule exec_preserves(2)[where Q = "\<lambda>st m x. turn x = turn g", OF _ _ _ refl assms])
       (auto simp: set_heading_def set_speed_def attack_target_def Let_def split: if_splits)
  then show ?thesis by simp
qed


lemma radar_loop_turn:
  "radar_loop st m radar reply rs g = Inr g' \<Longrightarrow> turn g' = turn g"
proof (induction rs arbitrary: g)
  case Nil
  then show ?case by simp
next
  case (Cons i rs)
  from Cons.prems obtain g1
    where 1: "exec_commands st m i (reply i) (g\<lparr>events := events g @ [Radar_updated i radar]\<rparr>) = Inr g1"
      and 2: "radar_loop st m radar reply rs g1 = Inr g'"
    by (auto split: sum.splits)
  from exec_commands_turn[OF 1] Cons.IH[OF 2] show ?case by simp
qed

lemma commit_moves_turn:
  "commit_moves line_segs now rs g = Inr g' \<Longrightarrow> turn g' = turn g"
  by (induction rs arbitrary: g) (auto split: option.splits)

lemma move_robots_turn:
  "move_robots st m now rs g = Inr g' \<Longrightarrow> turn g' = turn g"
  by (auto simp: move_robots_def Let_def commit_moves_turn split: sum.splits)

subsection \<open>The run\<close>

text \<open>
  What the game gets from outside during a run: the readings of the clock (\<open>clock 0\<close>
  at line 225, \<open>clock k\<close> in the movement of turn \<open>k\<close>), and what each controller does
  when it is told that the game has started and when it gets the radar of turn \<open>k\<close>.
\<close>

record script =
  clock :: "nat \<Rightarrow> real"
  on_started :: "nat \<Rightarrow> command list"
  on_radar_updated :: "nat \<Rightarrow> nat \<Rightarrow> command list"

text \<open>The loop at lines 226-231.\<close>

fun start_loop ::
  "settings \<Rightarrow> maths \<Rightarrow> real \<Rightarrow> (nat \<Rightarrow> command list) \<Rightarrow> nat list \<Rightarrow> game \<Rightarrow> error + game" where
  "start_loop st m now reply [] g = Inr g"
| "start_loop st m now reply (i # is) g =
     (case exec_commands st m i (reply i)
             (g\<lparr>events := events g @ [Started i (coords (robots g ! i))]\<rparr>) of
        Inl e \<Rightarrow> Inl e
      | Inr g' \<Rightarrow>
          start_loop st m now reply is
            (g'\<lparr>robots := (robots g')[i := (robots g' ! i)\<lparr>then_t := Some now\<rparr>]\<rparr>))"

text \<open>
  The \<^verbatim>\<open>while\<close> loop at lines 234-241. Its first argument after the script is the
  list \<^verbatim>\<open>robots\<close>, which line 233 computes once, before the loop.
\<close>

function turn_loop :: "settings \<Rightarrow> maths \<Rightarrow> script \<Rightarrow> nat list \<Rightarrow> game \<Rightarrow> error + game" where
  "turn_loop st m sc rs g =
     (if 1 < length rs \<and> turn g < max_turns st
      then (case update_radar st m (on_radar_updated sc (turn g + 1)) rs (g\<lparr>turn := turn g + 1\<rparr>) of
              Inl e \<Rightarrow> Inl e
            | Inr g1 \<Rightarrow>
                (case move_robots st m (clock sc (turn g + 1)) rs g1 of
                   Inl e \<Rightarrow> Inl e
                 | Inr g2 \<Rightarrow> turn_loop st m sc rs g2))
      else Inr g)"
  by pat_completeness auto
termination
proof (relation "measure (\<lambda>(st, m, sc, rs, g). max_turns st - turn g)")
  show "wf (measure (\<lambda>(st, m, sc, rs, g). max_turns st - turn g))" by simp
next
  fix st :: settings and m sc rs and g g1 g2 :: game
  assume c: "1 < length rs \<and> turn g < max_turns st"
    and r: "update_radar st m (on_radar_updated sc (turn g + 1)) rs (g\<lparr>turn := turn g + 1\<rparr>) = Inr g1"
    and mv: "move_robots st m (clock sc (turn g + 1)) rs g1 = Inr g2"
  from r have "turn g1 = turn g + 1" by (simp add: update_radar_def radar_loop_turn)
  with move_robots_turn[OF mv] c
  show "((st, m, sc, rs, g2), (st, m, sc, rs, g)) \<in> measure (\<lambda>(st, m, sc, rs, g). max_turns st - turn g)"
    by auto
qed

declare turn_loop.simps [simp del]

definition run_robots :: "settings \<Rightarrow> maths \<Rightarrow> script \<Rightarrow> game \<Rightarrow> error + game" where
  "run_robots st m sc g =
     (case start_loop st m (clock sc 0) (on_started sc) [0 ..< length (robots g)] g of
        Inl e \<Rightarrow> Inl e
      | Inr g' \<Rightarrow> turn_loop st m sc (active_robots g') g')"

text \<open>Decimal notation of an integer, as \<^verbatim>\<open>format\<close> writes it.\<close>

fun str_nat :: "nat \<Rightarrow> string" where
  "str_nat n =
     (if n < 10 then [''0123456789'' ! n]
      else str_nat (n div 10) @ [''0123456789'' ! (n mod 10)])"

declare str_nat.simps [simp del]

definition str_int :: "int \<Rightarrow> string" where
  "str_int i = (if i < 0 then CHR ''-'' # str_nat (nat (- i)) else str_nat (nat i))"

definition winners :: "game \<Rightarrow> string list" where
  "winners g =
     map (\<lambda>i. instance_name (robots g ! i) @ '' (damage '' @ str_int (damage (robots g ! i)) @ '')'')
       (active_robots g)"

text \<open>\<^verbatim>\<open>Game.run\<close>: the list \<^verbatim>\<open>winners\<close>, unless the run is ended by an exception.\<close>

definition run :: "settings \<Rightarrow> maths \<Rightarrow> script \<Rightarrow> game \<Rightarrow> error + string list" where
  "run st m sc g =
     (case run_robots st m sc g of Inl e \<Rightarrow> Inl e | Inr g' \<Rightarrow> Inr (winners g'))"

fun join :: "string \<Rightarrow> string list \<Rightarrow> string" where
  "join sep [] = []"
| "join sep [x] = x"
| "join sep (x # y # ys) = x @ sep @ join sep (y # ys)"

text \<open>The line which \<^verbatim>\<open>main\<close> prints for a list of winners.\<close>

definition outcome :: "string list \<Rightarrow> string" where
  "outcome ws =
     (if 1 < length ws then ''Stalemate. The survivors are '' @ join '', '' ws
      else if length ws = 1 then ''The winner is '' @ ws ! 0
      else ''All robots were destroyed'')"

subsection \<open>Construction\<close>

text \<open>
  \<^verbatim>\<open>random.randrange(start, stop)\<close>: some element of the range, and ValueError when the
  range is empty. The third argument stands for the choice; every element of the
  range is the result for some choice.
\<close>

definition randrange :: "int \<Rightarrow> int \<Rightarrow> int \<Rightarrow> error + int" where
  "randrange start stop choice =
     (if stop \<le> start then Inl ValueError else Inr (start + choice mod (stop - start)))"

text \<open>
  The loop of \<^verbatim>\<open>__init__\<close>; \<open>choices robot_id\<close> are the two random choices made for
  that robot, and a robot class is given by its name.
\<close>

fun init_loop ::
  "settings \<Rightarrow> (nat \<Rightarrow> int \<times> int) \<Rightarrow> nat \<Rightarrow> string list \<Rightarrow> robot list \<Rightarrow> error + robot list" where
  "init_loop st choices robot_id [] rs = Inr rs"
| "init_loop st choices robot_id (Robot # classes) rs =
     (let (x_max, y_max) = battlefield_size st
      in case randrange 0 x_max (fst (choices robot_id)) of
           Inl e \<Rightarrow> Inl e
         | Inr x_rand \<Rightarrow>
             (case randrange 0 y_max (snd (choices robot_id)) of
                Inl e \<Rightarrow> Inl e
              | Inr y_rand \<Rightarrow>
                  init_loop st choices (Suc robot_id) classes
                    (rs @ [\<lparr>instance_name = Robot,
                            coords = (of_int x_rand, of_int y_rand),
                            speed = 0, damage = 0, heading = 0, then_t = None\<rparr>])))"

definition Game_init :: "settings \<Rightarrow> (nat \<Rightarrow> int \<times> int) \<Rightarrow> string list \<Rightarrow> error + game" where
  "Game_init st choices robot_classes =
     (case init_loop st choices 0 robot_classes [] of
        Inl e \<Rightarrow> Inl e
      | Inr rs \<Rightarrow> Inr \<lparr>turn = 0, robots = rs, events = []\<rparr>)"

text \<open>A robot as the loop of \<^verbatim>\<open>__init__\<close> appends it, for a class and an arena.\<close>

definition fresh :: "settings \<Rightarrow> string \<Rightarrow> robot \<Rightarrow> bool" where
  "fresh st name r \<longleftrightarrow>
     instance_name r = name \<and> speed r = 0 \<and> damage r = 0 \<and> heading r = 0 \<and> then_t r = None
     \<and> (\<exists>x y. coords r = (of_int x, of_int y)
            \<and> 0 \<le> x \<and> x < fst (battlefield_size st) \<and> 0 \<le> y \<and> y < snd (battlefield_size st))"

text \<open>\<^verbatim>\<open>main\<close> from the robot classes on: the line printed, or the exception.\<close>

definition main ::
  "settings \<Rightarrow> maths \<Rightarrow> (nat \<Rightarrow> int \<times> int) \<Rightarrow> script \<Rightarrow> string list \<Rightarrow> error + string" where
  "main st m choices sc robot_classes =
     (case Game_init st choices robot_classes of
        Inl e \<Rightarrow> Inl e
      | Inr game \<Rightarrow>
          (case run st m sc game of
             Inl e \<Rightarrow> Inl e
           | Inr ws \<Rightarrow> Inr (outcome ws)))"

subsection \<open>The geometry helpers as the specification describes them\<close>

text \<open>
  Modelled from the spec: \<^verbatim>\<open>rrobot.maths.seg_intersect\<close>, which is not in the sources.
  "Standard parametric line intersection; returns the intersection point only if both
  segments' parameters lie in [0,1]. Parallel/collinear segments return no
  intersection."
\<close>

definition spec_seg_intersect :: "point \<Rightarrow> point \<Rightarrow> point \<Rightarrow> point \<Rightarrow> point option" where
  "spec_seg_intersect a1 a2 b1 b2 =
     (let dax = fst a2 - fst a1; day = snd a2 - snd a1;
          dbx = fst b2 - fst b1; dby = snd b2 - snd b1;
          denom = dax * dby - day * dbx
      in if denom = 0 then None
         else (let t = ((fst b1 - fst a1) * dby - (snd b1 - snd a1) * dbx) / denom;
                   u = ((fst b1 - fst a1) * day - (snd b1 - snd a1) * dax) / denom
               in if 0 \<le> t \<and> t \<le> 1 \<and> 0 \<le> u \<and> u \<le> 1
                  then Some (fst a1 + t * dax, snd a1 + t * day) else None))"

text \<open>
  Modelled from the spec: \<^verbatim>\<open>rrobot.maths.is_in_angle\<close>, which is not in the sources.
  "True if point lies within plus or minus coneWidth/2 radians of heading, measured
  from origin, using circular angle comparison." For a cone of at most a full turn this
  says that the angle between the direction of the heading and the direction to the
  point has a cosine of at least \<open>cos (coneWidth / 2)\<close>; the specification does not
  say what the direction from the origin to itself is, and this reading puts the
  origin inside every cone.
\<close>

definition spec_is_in_angle :: "point \<Rightarrow> real \<Rightarrow> real \<Rightarrow> point \<Rightarrow> bool" where
  "spec_is_in_angle origin h cone_width p =
     (let dx = fst p - fst origin; dy = snd p - snd origin
      in sqrt (dx * dx + dy * dy) * cos (cone_width / 2) \<le> dx * cos h + dy * sin h)"

text \<open>
  Modelled from the spec: \<^verbatim>\<open>rrobot.maths.get_inverse_square\<close>, which is not in the
  sources. "Returns peak when distance(a,b) is 0, otherwise
  min(peak, peak / distance(a,b)^2)."
\<close>

definition spec_get_inverse_square :: "point \<Rightarrow> point \<Rightarrow> int \<Rightarrow> real" where
  "spec_get_inverse_square a b peak =
     (let d2 = (fst a - fst b) * (fst a - fst b) + (snd a - snd b) * (snd a - snd b)
      in if d2 = 0 then of_int peak else min (of_int peak) (of_int peak / d2))"

definition spec_maths :: maths where
  "spec_maths = \<lparr>seg_intersect = spec_seg_intersect, is_in_angle = spec_is_in_angle,
                  get_inverse_square = spec_get_inverse_square\<rparr>"

subsection \<open>Example configurations\<close>

definition arena :: settings where
  "arena = \<lparr>battlefield_size = (10, 10), max_speed = 10, attack_angle = pi,
             attack_damage = 10, max_turns = 3\<rparr>"

text \<open>A robot as \<^verbatim>\<open>__init__\<close> creates it, and a game of two of them.\<close>

definition at_rest :: "string \<Rightarrow> point \<Rightarrow> robot" where
  "at_rest name p = \<lparr>instance_name = name, coords = p, speed = 0, damage = 0, heading = 0,
                      then_t = None\<rparr>"

definition pair_game :: "point \<Rightarrow> point \<Rightarrow> game" where
  "pair_game p q = \<lparr>turn = 0, robots = [at_rest ''Alpha'' p, at_rest ''Beta'' q], events = []\<rparr>"

text \<open>A game of one robot, and a controller that asks for twice the maximal speed.\<close>

definition solo_game :: game where
  "solo_game = \<lparr>turn = 0, robots = [at_rest ''Alpha'' (4, 4)], events = []\<rparr>"

definition hasty_script :: script where
  "hasty_script = \<lparr>clock = (\<lambda>k. real k), on_started = (\<lambda>i. [Set_speed 20]),
                    on_radar_updated = (\<lambda>k i. [])\<rparr>"

text \<open>
  Three robots: Bravo attacks once, then Alpha attacks ten times, both while they
  handle "started"; Target stands diagonally before Bravo and right before Alpha.
\<close>

definition trio_game :: game where
  "trio_game = \<lparr>turn = 0,
                 robots = [at_rest ''Bravo'' (4, 4), at_rest ''Alpha'' (4, 5), at_rest ''Target'' (5, 5)],
                 events = []\<rparr>"

definition crossfire_script :: script where
  "crossfire_script =
     \<lparr>clock = (\<lambda>k. real k),
      on_started = (\<lambda>i. if i = 0 then [Attack []] else if i = 1 then replicate 10 (Attack []) else []),
      on_radar_updated = (\<lambda>k i. [])\<rparr>"


text \<open>
  Two robots in the first turn, two seconds after the start: Alpha heads for the left
  border and would pass it; Beta stands still.
\<close>

definition wall_game :: game where
  "wall_game =
     \<lparr>turn = 1,
      robots = [(at_rest ''Alpha'' (5, 5))\<lparr>speed := 5, heading := pi, then_t := Some 0\<rparr>,
                (at_rest ''Beta'' (8, 8))\<lparr>then_t := Some 0\<rparr>],
      events = []\<rparr>"

text \<open>
  The same, with Beta crossing the path of Alpha between Alpha and the left border.
\<close>

definition crossing_game :: game where
  "crossing_game =
     \<lparr>turn = 1,
      robots = [(at_rest ''Alpha'' (5, 5))\<lparr>speed := 5, heading := pi, then_t := Some 0\<rparr>,
                (at_rest ''Beta'' (2, 3))\<lparr>speed := 2, heading := pi / 2, then_t := Some 0\<rparr>],
      events = []\<rparr>"

text \<open>The controllers that lead to \<open>wall_game\<close>; the clock advances two seconds a turn.\<close>

definition wall_script :: script where
  "wall_script =
     \<lparr>clock = (\<lambda>k. 2 * real k),
      on_started = (\<lambda>i. if i = 0 then [Set_heading pi, Set_speed 5] else []),
      on_radar_updated = (\<lambda>k i. [])\<rparr>"

text \<open>
  A variant of the helpers in which \<^verbatim>\<open>seg_intersect\<close> reports no crossing at all. With
  \<open>spec_seg_intersect\<close> the borders meet at the corners of the arena, so that every
  movement finds an intersection (lemma \<open>move_robots_spec_corner\<close> below); what the
  turn loop does after a movement without one is seen with this variant.
\<close>

definition quiet_maths :: maths where
  "quiet_maths = spec_maths\<lparr>seg_intersect := (\<lambda>a1 a2 b1 b2. None)\<rparr>"

text \<open>
  A controller that attacks ten times when it gets the radar of turn 1, and the game of
  two robots, one step apart, after both have been told that it has started.
\<close>

definition duel_script :: script where
  "duel_script =
     \<lparr>clock = (\<lambda>k. real k),
      on_started = (\<lambda>i. []),
      on_radar_updated = (\<lambda>k i. if k = 1 \<and> i = 0 then replicate 10 (Attack []) else [])\<rparr>"

definition duel_game :: game where
  "duel_game =
     \<lparr>turn = 0,
      robots = [(at_rest ''Alpha'' (4, 4))\<lparr>then_t := Some 0\<rparr>,
                (at_rest ''Beta'' (5, 4))\<lparr>then_t := Some 0\<rparr>],
      events = [Started 0 (4, 4), Started 1 (5, 4)]\<rparr>"

subsection \<open>Invariants\<close>

text \<open>Sequencing of two steps of which the first may raise.\<close>

definition and_then :: "error + 'a \<Rightarrow> ('a \<Rightarrow> error + 'b) \<Rightarrow> error + 'b" where
  "and_then r f = (case r of Inl e \<Rightarrow> Inl e | Inr x \<Rightarrow> f x)"

text \<open>
  A property of the game is preserved when every elementary change that a run makes
  keeps it: the two setters, one pass of the attack loop, the sending of a
  notification, the increment of the turn counter, the stamping of a robot and the
  commitment of a move.
\<close>

definition preserved :: "(settings \<Rightarrow> maths \<Rightarrow> game \<Rightarrow> bool) \<Rightarrow> bool" where
  "preserved Q \<longleftrightarrow>
     (\<forall>st m g i rads g'. Q st m g \<longrightarrow> set_heading i rads g = Inr g' \<longrightarrow> Q st m g')
   \<and> (\<forall>st m g i mps g'. Q st m g \<longrightarrow> set_speed st i mps g = Inr g' \<longrightarrow> Q st m g')
   \<and> (\<forall>st m g a t. Q st m g \<longrightarrow> a < length (robots g) \<longrightarrow> t < length (robots g)
         \<longrightarrow> Q st m (fst (attack_target st m a t g)))
   \<and> (\<forall>st m g i p. Q st m g \<longrightarrow> Q st m (g\<lparr>events := events g @ [Started i p]\<rparr>))
   \<and> (\<forall>st m g i radar. Q st m g \<longrightarrow> Q st m (g\<lparr>events := events g @ [Radar_updated i radar]\<rparr>))
   \<and> (\<forall>st m g. Q st m g \<longrightarrow> Q st m (g\<lparr>turn := turn g + 1\<rparr>))
   \<and> (\<forall>st m g i now. Q st m g \<longrightarrow> i < length (robots g)
         \<longrightarrow> Q st m (g\<lparr>robots := (robots g)[i := (robots g ! i)\<lparr>then_t := Some now\<rparr>]\<rparr>))
   \<and> (\<forall>st m g i p now. Q st m g \<longrightarrow> i < length (robots g)
         \<longrightarrow> Q st m (g\<lparr>robots := (robots g)[i := (robots g ! i)\<lparr>coords := p, then_t := Some now\<rparr>]\<rparr>))"

text \<open>No robot is faster than the configured maximum.\<close>

definition speed_bounded :: "settings \<Rightarrow> maths \<Rightarrow> game \<Rightarrow> bool" where
  "speed_bounded st m g \<longleftrightarrow> (\<forall>i<length (robots g). speed (robots g ! i) \<le> max_speed st)"

text \<open>
  The peak and the falloff are not negative, and every robot has at least the damage
  \<open>lb\<close> gives for it.
\<close>

definition damage_above :: "(nat \<Rightarrow> int) \<Rightarrow> settings \<Rightarrow> maths \<Rightarrow> game \<Rightarrow> bool" where
  "damage_above lb st m g \<longleftrightarrow>
     0 \<le> attack_damage st \<and> (\<forall>a b. 0 \<le> get_inverse_square m a b (attack_damage st))
     \<and> (\<forall>i<length (robots g). lb i \<le> damage (robots g ! i))"



text \<open>The keys that \<^verbatim>\<open>_move_robots\<close> puts into \<^verbatim>\<open>line_segs\<close>.\<close>

definition line_seg_key :: "seg_id \<Rightarrow> bool" where
  "line_seg_key k =
     (case k of
        Int_id i \<Rightarrow> True
      | Str s \<Rightarrow> s \<in> set [''left'', ''top'', ''right'', ''bottom''])"

section \<open>Properties\<close>

subsection \<open>One attack\<close>

lemma map_update_same: "(map f xs)[i := f (xs ! i)] = map f xs"
  by (metis list_update_id map_update)

lemma py_int_le: "x \<le> of_int d \<Longrightarrow> py_int x \<le> d"
  by (auto simp: py_int_def floor_le_iff ceiling_le_iff)

lemma py_int_nonneg: "0 \<le> x \<Longrightarrow> 0 \<le> py_int x"
  by (simp add: py_int_def)

lemma attack_amount_le: "attack_amount st m a t \<le> attack_damage st"
  by (simp add: attack_amount_def py_int_le)

lemma attack_target_eq:
  "t < length (robots g) \<Longrightarrow>
   attack_target st m a t g =
     (g\<lparr>robots := (robots g)[t := (robots g ! t)\<lparr>damage := damage (robots g ! t) + hit_amount st m g a t\<rparr>],
        events := events g @ (if hit_amount st m g a t \<noteq> 0 then [Attacked t (instance_name (robots g ! a))] else [])\<rparr>,
      hit_amount st m g a t \<noteq> 0)"
  by (simp add: attack_target_def hit_amount_def Let_def)

lemma hit_amount_cong:
  assumes "coords (robots g1 ! a) = coords (robots g ! a)" "heading (robots g1 ! a) = heading (robots g ! a)"
    "coords (robots g1 ! t) = coords (robots g ! t)"
  shows "hit_amount st m g1 a t = hit_amount st m g a t"
  using assms by (simp add: hit_amount_def attack_amount_def)

text \<open>
  An attack whose targets do nothing when they are notified: every robot that was
  active is visited once, and gets what the attacker's position and heading give it.
\<close>

lemma attack_loop_no_replies:
  assumes "distinct ts" "\<forall>t\<in>set ts. t < length (robots g)" "a < length (robots g)"
  shows "\<exists>g'. attack_loop st m a ts [] g = Inr g'
          \<and> turn g' = turn g
          \<and> length (robots g') = length (robots g)
          \<and> (\<forall>i<length (robots g). robots g' ! i =
                (if i \<in> set ts
                 then (robots g ! i)\<lparr>damage := damage (robots g ! i) + hit_amount st m g a i\<rparr>
                 else robots g ! i))
          \<and> events g' = events g @
                map (\<lambda>t. Attacked t (instance_name (robots g ! a)))
                  (filter (\<lambda>t. hit_amount st m g a t \<noteq> 0) ts)"
  using assms
proof (induction ts arbitrary: g)
  case Nil
  then show ?case by simp
next
  case (Cons t ts)
  let ?g1 = "fst (attack_target st m a t g)"
  from Cons.prems have t: "t < length (robots g)" "t \<notin> set ts" by auto
  have g1: "?g1 = g\<lparr>robots := (robots g)[t := (robots g ! t)\<lparr>damage := damage (robots g ! t) + hit_amount st m g a t\<rparr>],
        events := events g @ (if hit_amount st m g a t \<noteq> 0 then [Attacked t (instance_name (robots g ! a))] else [])\<rparr>"
    by (simp add: attack_target_eq[OF t(1)])
  have len: "length (robots ?g1) = length (robots g)" by (simp add: g1)
  have nth: "\<And>i. i < length (robots g) \<Longrightarrow> robots ?g1 ! i =
      (if i = t then (robots g ! t)\<lparr>damage := damage (robots g ! t) + hit_amount st m g a t\<rparr> else robots g ! i)"
    by (simp add: g1 nth_list_update)
  have same: "\<And>i. i < length (robots g) \<Longrightarrow> coords (robots ?g1 ! i) = coords (robots g ! i)
      \<and> heading (robots ?g1 ! i) = heading (robots g ! i)
      \<and> instance_name (robots ?g1 ! i) = instance_name (robots g ! i)"
    by (simp add: nth)
  have hit: "\<And>i. i < length (robots g) \<Longrightarrow> hit_amount st m ?g1 a i = hit_amount st m g a i"
    using same Cons.prems(3) by (intro hit_amount_cong) auto
  from Cons.prems len have "distinct ts" "\<forall>t\<in>set ts. t < length (robots ?g1)"
    "a < length (robots ?g1)" by auto
  from Cons.IH[OF this] obtain g' where
    lp: "attack_loop st m a ts [] ?g1 = Inr g'" and tn: "turn g' = turn ?g1"
    and ln: "length (robots g') = length (robots ?g1)"
    and rb: "\<forall>i<length (robots ?g1). robots g' ! i =
                (if i \<in> set ts
                 then (robots ?g1 ! i)\<lparr>damage := damage (robots ?g1 ! i) + hit_amount st m ?g1 a i\<rparr>
                 else robots ?g1 ! i)"
    and ev: "events g' = events ?g1 @
                map (\<lambda>t. Attacked t (instance_name (robots ?g1 ! a)))
                  (filter (\<lambda>t. hit_amount st m ?g1 a t \<noteq> 0) ts)"
    by blast
  have lp': "attack_loop st m a (t # ts) [] g = Inr g'" using lp by simp
  have tn': "turn g' = turn g" using tn by (simp add: g1)
  have ln': "length (robots g') = length (robots g)" using ln len by simp
  have rb': "\<forall>i<length (robots g). robots g' ! i =
                (if i \<in> set (t # ts)
                 then (robots g ! i)\<lparr>damage := damage (robots g ! i) + hit_amount st m g a i\<rparr>
                 else robots g ! i)"
  proof (intro allI impI)
    fix i assume i: "i < length (robots g)"
    with rb len have "robots g' ! i =
                (if i \<in> set ts
                 then (robots ?g1 ! i)\<lparr>damage := damage (robots ?g1 ! i) + hit_amount st m ?g1 a i\<rparr>
                 else robots ?g1 ! i)" by simp
    with i t(2) show "robots g' ! i =
                (if i \<in> set (t # ts)
                 then (robots g ! i)\<lparr>damage := damage (robots g ! i) + hit_amount st m g a i\<rparr>
                 else robots g ! i)"
      by (auto simp: nth hit)
  qed
  have fl: "filter (\<lambda>t. hit_amount st m ?g1 a t \<noteq> 0) ts = filter (\<lambda>t. hit_amount st m g a t \<noteq> 0) ts"
    using Cons.prems(2) by (intro filter_cong) (auto simp: hit)
  have ev': "events g' = events g @
                map (\<lambda>t. Attacked t (instance_name (robots g ! a)))
                  (filter (\<lambda>t. hit_amount st m g a t \<noteq> 0) (t # ts))"
    using ev same[OF Cons.prems(3)] by (simp add: fl) (simp add: g1)
  from lp' tn' ln' rb' ev' show ?case by blast
qed



lemma attack_no_replies:
  assumes "a < length (robots g)"
  shows "\<exists>g'. attack st m a [] g = Inr g'
          \<and> turn g' = turn g
          \<and> length (robots g') = length (robots g)
          \<and> (\<forall>i<length (robots g). robots g' ! i =
                (if i \<in> set (active_robots g)
                 then (robots g ! i)\<lparr>damage := damage (robots g ! i) + hit_amount st m g a i\<rparr>
                 else robots g ! i))
          \<and> events g' = events g @
                map (\<lambda>t. Attacked t (instance_name (robots g ! a)))
                  (filter (\<lambda>t. hit_amount st m g a t \<noteq> 0) (active_robots g))"
proof -
  have "distinct (active_robots g)" "\<forall>t\<in>set (active_robots g). t < length (robots g)"
    by (simp_all add: active_robots_def)
  from attack_loop_no_replies[OF this assms, of st m] assms show ?thesis
    by (simp add: attack_def)
qed

text \<open>
  Claim C8. In an attack, a target inside the attacker's cone whose position equals
  the attacker's gets exactly the configured peak \<open>attack_damage\<close> added to its
  damage; any other target inside the cone gets at most the peak. This holds for the
  pass of the loop over that target, whatever the notified controllers do, and for
  the whole call when they do nothing in reply.
\<close>

theorem attack_point_blank_peak:
  assumes a: "a < length (robots g)"
    and t: "t \<in> set (active_robots g)"
    and cone: "is_in_angle m (coords (robots g ! a)) (heading (robots g ! a)) (attack_angle st)
                 (coords (robots g ! t))"
  shows "(coords (robots g ! a) = coords (robots g ! t) \<longrightarrow>
            damage (robots (fst (attack_target st m a t g)) ! t)
              = damage (robots g ! t) + attack_damage st)
       \<and> (coords (robots g ! a) \<noteq> coords (robots g ! t) \<longrightarrow>
            damage (robots (fst (attack_target st m a t g)) ! t)
              \<le> damage (robots g ! t) + attack_damage st)
       \<and> (\<exists>g'. attack st m a [] g = Inr g'
            \<and> (coords (robots g ! a) = coords (robots g ! t) \<longrightarrow>
                  damage (robots g' ! t) = damage (robots g ! t) + attack_damage st)
            \<and> (coords (robots g ! a) \<noteq> coords (robots g ! t) \<longrightarrow>
                  damage (robots g' ! t) \<le> damage (robots g ! t) + attack_damage st))"
proof -
  from t have tl: "t < length (robots g)" by (simp add: active_robots_def)
  let ?d = "attack_amount st m (robots g ! a) (robots g ! t)"
  have hit: "hit_amount st m g a t = ?d" using cone by (simp add: hit_amount_def)
  have eq: "coords (robots g ! a) = coords (robots g ! t) \<Longrightarrow> ?d = attack_damage st"
    by (simp add: attack_amount_def)
  have le: "?d \<le> attack_damage st" by (rule attack_amount_le)
  have pass: "damage (robots (fst (attack_target st m a t g)) ! t) = damage (robots g ! t) + ?d"
    using tl hit by (simp add: attack_target_eq)
  from attack_no_replies[OF a, of st m] obtain g' where
    g': "attack st m a [] g = Inr g'"
    and rb: "\<forall>i<length (robots g). robots g' ! i =
                (if i \<in> set (active_robots g)
                 then (robots g ! i)\<lparr>damage := damage (robots g ! i) + hit_amount st m g a i\<rparr>
                 else robots g ! i)"
    by blast
  from rb tl t hit have call: "damage (robots g' ! t) = damage (robots g ! t) + ?d" by simp
  from pass call g' eq le show ?thesis by auto
qed

theorem attack_point_blank_peak_witness:
  "0 < length (robots (pair_game (4, 4) (4, 4)))
   \<and> 1 \<in> set (active_robots (pair_game (4, 4) (4, 4)))
   \<and> spec_is_in_angle (4, 4) 0 pi (4, 4)
   \<and> damage (robots (fst (attack_target arena spec_maths 0 1 (pair_game (4, 4) (4, 4)))) ! 1) = 10
   \<and> (\<exists>g'. attack arena spec_maths 0 [] (pair_game (4, 4) (4, 4)) = Inr g'
          \<and> damage (robots g' ! 1) = 10)"
  using attack_point_blank_peak[of 0 "pair_game (4, 4) (4, 4)" 1 spec_maths arena]
  by (simp add: pair_game_def at_rest_def active_robots_def spec_maths_def spec_is_in_angle_def
        arena_def)



subsection \<open>Construction\<close>

lemma randrange_0: "randrange 0 n c = Inr x \<Longrightarrow> 0 \<le> x \<and> x < n"
  by (auto simp: randrange_def split: if_splits)

lemma init_loop_fresh:
  "init_loop st choices k classes acc = Inr rs \<Longrightarrow>
   \<exists>new. rs = acc @ new \<and> length new = length classes
         \<and> (\<forall>j<length classes. fresh st (classes ! j) (new ! j))"
proof (induction classes arbitrary: k acc)
  case Nil
  then show ?case by simp
next
  case (Cons R classes)
  obtain x_max y_max where b: "battlefield_size st = (x_max, y_max)" by (cases "battlefield_size st")
  from Cons.prems b obtain x y where
    x: "randrange 0 x_max (fst (choices k)) = Inr x" and y: "randrange 0 y_max (snd (choices k)) = Inr y"
    and rest: "init_loop st choices (Suc k) classes
                 (acc @ [\<lparr>instance_name = R, coords = (of_int x, of_int y),
                          speed = 0, damage = 0, heading = 0, then_t = None\<rparr>]) = Inr rs"
    by (auto split: sum.splits)
  let ?r = "\<lparr>instance_name = R, coords = (real_of_int x, real_of_int y),
              speed = 0, damage = 0, heading = 0, then_t = None\<rparr>"
  have fr: "fresh st R ?r"
    using randrange_0[OF x] randrange_0[OF y] b by (auto simp: fresh_def)
  from Cons.IH[OF rest] obtain new where
    new: "rs = (acc @ [?r]) @ new" "length new = length classes"
      "\<forall>j<length classes. fresh st (classes ! j) (new ! j)" by blast
  have "\<forall>j<length (R # classes). fresh st ((R # classes) ! j) ((?r # new) ! j)"
    using fr new(3) by (auto simp: nth_Cons split: nat.splits)
  with new(1,2) show ?case by (intro exI[of _ "?r # new"]) simp
qed

lemma init_loop_total:
  "0 < fst (battlefield_size st) \<Longrightarrow> 0 < snd (battlefield_size st) \<Longrightarrow>
   \<exists>rs. init_loop st choices k classes acc = Inr rs"
  by (induction classes arbitrary: k acc) (auto simp: randrange_def split: prod.splits)

text \<open>What \<^verbatim>\<open>__init__\<close> returns.\<close>

lemma Game_init_robots:
  assumes "Game_init st choices robot_classes = Inr g"
  shows "turn g = 0 \<and> events g = [] \<and> length (robots g) = length robot_classes
         \<and> (\<forall>i<length robot_classes. fresh st (robot_classes ! i) (robots g ! i))"
proof -
  from assms obtain rs where rs: "init_loop st choices 0 robot_classes [] = Inr rs"
    and g: "g = \<lparr>turn = 0, robots = rs, events = []\<rparr>"
    by (auto simp: Game_init_def split: sum.splits)
  from init_loop_fresh[OF rs] g show ?thesis by auto
qed

text \<open>
  Claim C10. Construction succeeds when both bounds of the arena are positive, and
  after it every robot has speed 0, damage 0, heading 0, no timestamp of a last move,
  and whole-numbered coordinates with \<open>0 \<le> x < width\<close> and \<open>0 \<le> y < height\<close>; all
  robots are active, the turn counter is 0 and nothing has been sent yet.
\<close>

theorem Game_init_fresh:
  "(0 < fst (battlefield_size st) \<and> 0 < snd (battlefield_size st)
      \<longrightarrow> (\<exists>g. Game_init st choices robot_classes = Inr g))
   \<and> (\<forall>g. Game_init st choices robot_classes = Inr g \<longrightarrow>
         turn g = 0 \<and> events g = []
         \<and> length (robots g) = length robot_classes
         \<and> (\<forall>i<length robot_classes.
               instance_name (robots g ! i) = robot_classes ! i
               \<and> speed (robots g ! i) = 0 \<and> damage (robots g ! i) = 0
               \<and> heading (robots g ! i) = 0 \<and> then_t (robots g ! i) = None
               \<and> (\<exists>x y. coords (robots g ! i) = (of_int x, of_int y)
                      \<and> 0 \<le> x \<and> x < fst (battlefield_size st)
                      \<and> 0 \<le> y \<and> y < snd (battlefield_size st)))
         \<and> active_robots g = [0 ..< length robot_classes])"
proof (rule conjI)
  show "0 < fst (battlefield_size st) \<and> 0 < snd (battlefield_size st)
      \<longrightarrow> (\<exists>g. Game_init st choices robot_classes = Inr g)"
  proof
    assume "0 < fst (battlefield_size st) \<and> 0 < snd (battlefield_size st)"
    then obtain rs where "init_loop st choices 0 robot_classes [] = Inr rs"
      using init_loop_total by blast
    then show "\<exists>g. Game_init st choices robot_classes = Inr g" by (simp add: Game_init_def)
  qed
next
  show "\<forall>g. Game_init st choices robot_classes = Inr g \<longrightarrow>
         turn g = 0 \<and> events g = []
         \<and> length (robots g) = length robot_classes
         \<and> (\<forall>i<length robot_classes.
               instance_name (robots g ! i) = robot_classes ! i
               \<and> speed (robots g ! i) = 0 \<and> damage (robots g ! i) = 0
               \<and> heading (robots g ! i) = 0 \<and> then_t (robots g ! i) = None
               \<and> (\<exists>x y. coords (robots g ! i) = (of_int x, of_int y)
                      \<and> 0 \<le> x \<and> x < fst (battlefield_size st)
                      \<and> 0 \<le> y \<and> y < snd (battlefield_size st)))
         \<and> active_robots g = [0 ..< length robot_classes]"
  proof (intro allI impI)
    fix g assume g: "Game_init st choices robot_classes = Inr g"
    from Game_init_robots[OF g]
    have t: "turn g = 0" "events g = []" and len: "length (robots g) = length robot_classes"
      and fr: "\<forall>i<length robot_classes. fresh st (robot_classes ! i) (robots g ! i)"
      by simp_all
    have each: "\<forall>i<length robot_classes.
               instance_name (robots g ! i) = robot_classes ! i
               \<and> speed (robots g ! i) = 0 \<and> damage (robots g ! i) = 0
               \<and> heading (robots g ! i) = 0 \<and> then_t (robots g ! i) = None
               \<and> (\<exists>x y. coords (robots g ! i) = (of_int x, of_int y)
                      \<and> 0 \<le> x \<and> x < fst (battlefield_size st)
                      \<and> 0 \<le> y \<and> y < snd (battlefield_size st))"
      using fr unfolding fresh_def by simp
    have "\<forall>i\<in>set [0 ..< length (robots g)]. damage (robots g ! i) < 100"
      using fr len by (auto simp: fresh_def)
    then have act: "active_robots g = [0 ..< length robot_classes]"
      unfolding active_robots_def using len by (simp add: filter_id_conv del: upt_Suc)
    from t len each act
    show "turn g = 0 \<and> events g = []
         \<and> length (robots g) = length robot_classes
         \<and> (\<forall>i<length robot_classes.
               instance_name (robots g ! i) = robot_classes ! i
               \<and> speed (robots g ! i) = 0 \<and> damage (robots g ! i) = 0
               \<and> heading (robots g ! i) = 0 \<and> then_t (robots g ! i) = None
               \<and> (\<exists>x y. coords (robots g ! i) = (of_int x, of_int y)
                      \<and> 0 \<le> x \<and> x < fst (battlefield_size st)
                      \<and> 0 \<le> y \<and> y < snd (battlefield_size st)))
         \<and> active_robots g = [0 ..< length robot_classes]"
      by blast
  qed
qed

theorem Game_init_fresh_witness:
  "0 < fst (battlefield_size arena) \<and> 0 < snd (battlefield_size arena)
   \<and> Game_init arena (\<lambda>i. if i = 0 then (4, 14) else (- 5, 4)) [''Alpha'', ''Beta'']
       = Inr (pair_game (4, 4) (5, 4))
   \<and> active_robots (pair_game (4, 4) (5, 4)) = [0, 1]
   \<and> (\<exists>x y. coords (robots (pair_game (4, 4) (5, 4)) ! 1) = (of_int x, of_int y)
          \<and> 0 \<le> x \<and> x < 10 \<and> 0 \<le> y \<and> y < 10)"
proof -
  let ?ch = "\<lambda>i::nat. if i = 0 then (4::int, 14::int) else (- 5, 4)"
  have b: "0 < fst (battlefield_size arena) \<and> 0 < snd (battlefield_size arena)"
    "fst (battlefield_size arena) = 10" "snd (battlefield_size arena) = 10"
    by (simp_all add: arena_def)
  have e: "Game_init arena ?ch [''Alpha'', ''Beta''] = Inr (pair_game (4, 4) (5, 4))"
    by (simp add: Game_init_def arena_def randrange_def pair_game_def at_rest_def)
  from Game_init_fresh[of arena ?ch "[''Alpha'', ''Beta'']"] e
  have "(\<forall>i<length [''Alpha'', ''Beta''].
               (\<exists>x y. coords (robots (pair_game (4, 4) (5, 4)) ! i) = (of_int x, of_int y)
                      \<and> 0 \<le> x \<and> x < fst (battlefield_size arena)
                      \<and> 0 \<le> y \<and> y < snd (battlefield_size arena)))
         \<and> active_robots (pair_game (4, 4) (5, 4)) = [0 ..< length [''Alpha'', ''Beta'']]"
    by simp
  then have "(\<exists>x y. coords (robots (pair_game (4, 4) (5, 4)) ! 1) = (of_int x, of_int y)
          \<and> 0 \<le> x \<and> x < 10 \<and> 0 \<le> y \<and> y < 10)"
     and "active_robots (pair_game (4, 4) (5, 4)) = [0, 1]"
    using b(2,3) by auto
  with b(1) e show ?thesis by blast
qed

subsection \<open>Invariants of a run\<close>

lemma preservedD:
  assumes "preserved Q"
  shows "\<And>st m g i rads g'. Q st m g \<Longrightarrow> set_heading i rads g = Inr g' \<Longrightarrow> Q st m g'"
    and "\<And>st m g i mps g'. Q st m g \<Longrightarrow> set_speed st i mps g = Inr g' \<Longrightarrow> Q st m g'"
    and "\<And>st m g a t. Q st m g \<Longrightarrow> a < length (robots g) \<Longrightarrow> t < length (robots g)
           \<Longrightarrow> Q st m (fst (attack_target st m a t g))"
    and "\<And>st m g i p. Q st m g \<Longrightarrow> Q st m (g\<lparr>events := events g @ [Started i p]\<rparr>)"
    and "\<And>st m g i radar. Q st m g \<Longrightarrow> Q st m (g\<lparr>events := events g @ [Radar_updated i radar]\<rparr>)"
    and "\<And>st m g. Q st m g \<Longrightarrow> Q st m (g\<lparr>turn := turn g + 1\<rparr>)"
    and "\<And>st m g i now. Q st m g \<Longrightarrow> i < length (robots g)
           \<Longrightarrow> Q st m (g\<lparr>robots := (robots g)[i := (robots g ! i)\<lparr>then_t := Some now\<rparr>]\<rparr>)"
    and "\<And>st m g i p now. Q st m g \<Longrightarrow> i < length (robots g)
           \<Longrightarrow> Q st m (g\<lparr>robots := (robots g)[i := (robots g ! i)\<lparr>coords := p, then_t := Some now\<rparr>]\<rparr>)"
proof -
  note p = assms[unfolded preserved_def]
  show "Q st m g'" if "Q st m g" "set_heading i rads g = Inr g'" for st m g i rads g'
    by (rule p[THEN conjunct1, rule_format, OF that])
  show "Q st m g'" if "Q st m g" "set_speed st i mps g = Inr g'" for st m g i mps g'
    by (rule p[THEN conjunct2, THEN conjunct1, rule_format, OF that])
  show "Q st m (fst (attack_target st m a t g))"
    if "Q st m g" "a < length (robots g)" "t < length (robots g)" for st m g a t
    by (rule p[THEN conjunct2, THEN conjunct2, THEN conjunct1, rule_format, OF that])
  show "Q st m (g\<lparr>events := events g @ [Started i p]\<rparr>)" if "Q st m g" for st m g i p
    by (rule p[THEN conjunct2, THEN conjunct2, THEN conjunct2, THEN conjunct1, rule_format, OF that])
  show "Q st m (g\<lparr>events := events g @ [Radar_updated i radar]\<rparr>)" if "Q st m g" for st m g i radar
    by (rule p[THEN conjunct2, THEN conjunct2, THEN conjunct2, THEN conjunct2, THEN conjunct1, rule_format, OF that])
  show "Q st m (g\<lparr>turn := turn g + 1\<rparr>)" if "Q st m g" for st m g
    by (rule p[THEN conjunct2, THEN conjunct2, THEN conjunct2, THEN conjunct2, THEN conjunct2, THEN conjunct1, rule_format, OF that])
  show "Q st m (g\<lparr>robots := (robots g)[i := (robots g ! i)\<lparr>then_t := Some now\<rparr>]\<rparr>)"
    if "Q st m g" "i < length (robots g)" for st m g i now
    by (rule p[THEN conjunct2, THEN conjunct2, THEN conjunct2, THEN conjunct2, THEN conjunct2, THEN conjunct2, THEN conjunct1, rule_format, OF that])
  show "Q st m (g\<lparr>robots := (robots g)[i := (robots g ! i)\<lparr>coords := p, then_t := Some now\<rparr>]\<rparr>)"
    if "Q st m g" "i < length (robots g)" for st m g i p now
    by (rule p[THEN conjunct2, THEN conjunct2, THEN conjunct2, THEN conjunct2, THEN conjunct2, THEN conjunct2, THEN conjunct2, rule_format, OF that])
qed

lemma preserved_exec_commands:
  assumes "preserved Q" "Q st m g" "exec_commands st m i cs g = Inr g'"
  shows "Q st m g' \<and> length (robots g') = length (robots g)"
  by (rule exec_preserves(2)[where Q = Q, OF preservedD(1-3)[OF assms(1)] assms(2,3)])


lemma preserved_start_loop:
  assumes "preserved Q"
  shows "Q st m g \<Longrightarrow> \<forall>i\<in>set rs. i < length (robots g)
          \<Longrightarrow> start_loop st m now reply rs g = Inr g'
          \<Longrightarrow> Q st m g' \<and> length (robots g') = length (robots g)"
proof (induction rs arbitrary: g)
  case Nil
  then show ?case by simp
next
  case (Cons i rs)
  let ?g0 = "g\<lparr>events := events g @ [Started i (coords (robots g ! i))]\<rparr>"
  from Cons.prems(3) obtain g1 where
    1: "exec_commands st m i (reply i) ?g0 = Inr g1"
    and 2: "start_loop st m now reply rs
              (g1\<lparr>robots := (robots g1)[i := (robots g1 ! i)\<lparr>then_t := Some now\<rparr>]\<rparr>) = Inr g'"
    by (auto split: sum.splits)
  have q0: "Q st m ?g0" using Cons.prems(1) by (rule preservedD[OF assms])
  from preserved_exec_commands[OF assms q0 1]
  have q1: "Q st m g1" and l1: "length (robots g1) = length (robots g)" by simp_all
  let ?g2 = "g1\<lparr>robots := (robots g1)[i := (robots g1 ! i)\<lparr>then_t := Some now\<rparr>]\<rparr>"
  have i: "i < length (robots g1)" using Cons.prems(2) l1 by simp
  have q2: "Q st m ?g2" using q1 i by (rule preservedD[OF assms])
  have l2: "length (robots ?g2) = length (robots g)" using l1 by simp
  from Cons.IH[OF q2 _ 2] Cons.prems(2) l2 show ?case by simp
qed

lemma preserved_radar_loop:
  assumes "preserved Q"
  shows "Q st m g \<Longrightarrow> radar_loop st m radar reply rs g = Inr g'
          \<Longrightarrow> Q st m g' \<and> length (robots g') = length (robots g)"
proof (induction rs arbitrary: g)
  case Nil
  then show ?case by simp
next
  case (Cons i rs)
  let ?g0 = "g\<lparr>events := events g @ [Radar_updated i radar]\<rparr>"
  from Cons.prems(2) obtain g1 where
    1: "exec_commands st m i (reply i) ?g0 = Inr g1"
    and 2: "radar_loop st m radar reply rs g1 = Inr g'"
    by (auto split: sum.splits)
  have q0: "Q st m ?g0" using Cons.prems(1) by (rule preservedD[OF assms])
  from preserved_exec_commands[OF assms q0 1]
  have q1: "Q st m g1" and l1: "length (robots g1) = length (robots g)" by simp_all
  from Cons.IH[OF q1 2] l1 show ?case by simp
qed

lemma preserved_commit_moves:
  assumes "preserved Q"
  shows "Q st m g \<Longrightarrow> \<forall>i\<in>set rs. i < length (robots g)
          \<Longrightarrow> commit_moves line_segs now rs g = Inr g'
          \<Longrightarrow> Q st m g' \<and> length (robots g') = length (robots g)"
proof (induction rs arbitrary: g)
  case Nil
  then show ?case by simp
next
  case (Cons i rs)
  from Cons.prems(3) obtain s where s: "map_of line_segs (Int_id i) = Some s"
    and 2: "commit_moves line_segs now rs
              (g\<lparr>robots := (robots g)[i := (robots g ! i)\<lparr>coords := snd s, then_t := Some now\<rparr>]\<rparr>) = Inr g'"
    by (auto split: option.splits)
  let ?g1 = "g\<lparr>robots := (robots g)[i := (robots g ! i)\<lparr>coords := snd s, then_t := Some now\<rparr>]\<rparr>"
  have i: "i < length (robots g)" using Cons.prems(2) by simp
  have q1: "Q st m ?g1" using Cons.prems(1) i by (rule preservedD[OF assms])
  from Cons.IH[OF q1 _ 2] Cons.prems(2) show ?case by simp
qed

lemma preserved_move_robots:
  assumes "preserved Q" "Q st m g" "\<forall>i\<in>set rs. i < length (robots g)"
    "move_robots st m now rs g = Inr g'"
  shows "Q st m g' \<and> length (robots g') = length (robots g)"
proof -
  from assms(4) obtain ls where "commit_moves ls now rs g = Inr g'"
    by (auto simp: move_robots_def Let_def split: sum.splits)
  from preserved_commit_moves[OF assms(1,2,3) this] show ?thesis .
qed

lemma preserved_turn_loop:
  assumes "preserved Q"
  shows "Q st m g \<Longrightarrow> \<forall>i\<in>set rs. i < length (robots g)
          \<Longrightarrow> turn_loop st m sc rs g = Inr g'
          \<Longrightarrow> Q st m g' \<and> length (robots g') = length (robots g)"
proof (induction st m sc rs g rule: turn_loop.induct)
  case (1 st m sc rs g)
  show ?case
  proof (cases "1 < length rs \<and> turn g < max_turns st")
    case False
    have "turn_loop st m sc rs g = Inr g"
      by (subst turn_loop.simps) (rule if_not_P[OF False])
    with "1.prems" show ?thesis by simp
  next
    case True
    let ?g0 = "g\<lparr>turn := turn g + 1\<rparr>"
    from True "1.prems"(3) obtain g1 g2 where
      r: "update_radar st m (on_radar_updated sc (turn g + 1)) rs ?g0 = Inr g1"
      and mv: "move_robots st m (clock sc (turn g + 1)) rs g1 = Inr g2"
      and lp: "turn_loop st m sc rs g2 = Inr g'"
      by (subst (asm) turn_loop.simps) (auto split: sum.splits)
    have q0: "Q st m ?g0" using "1.prems"(1) by (rule preservedD[OF assms])
    from preserved_radar_loop[OF assms q0] r
    have q1: "Q st m g1" and l1: "length (robots g1) = length (robots g)"
      by (simp_all add: update_radar_def)
    from preserved_move_robots[OF assms q1 _ mv] "1.prems"(2) l1
    have q2: "Q st m g2" and l2: "length (robots g2) = length (robots g)" by simp_all
    from "1.IH"[OF True r mv q2 _ lp] "1.prems"(2) l2 show ?thesis by simp
  qed
qed

lemma preserved_run_robots:
  assumes "preserved Q" "Q st m g" "run_robots st m sc g = Inr g'"
  shows "Q st m g' \<and> length (robots g') = length (robots g)"
proof -
  from assms(3) obtain g1 where
    1: "start_loop st m (clock sc 0) (on_started sc) [0 ..< length (robots g)] g = Inr g1"
    and 2: "turn_loop st m sc (active_robots g1) g1 = Inr g'"
    by (auto simp: run_robots_def split: sum.splits)
  from preserved_start_loop[OF assms(1,2) _ 1]
  have q1: "Q st m g1" and l1: "length (robots g1) = length (robots g)" by simp_all
  have "\<forall>i\<in>set (active_robots g1). i < length (robots g1)" by (simp add: active_robots_def)
  from preserved_turn_loop[OF assms(1) q1 this 2] l1 show ?thesis by simp
qed


lemma preserved_speed_bounded: "preserved speed_bounded"
  unfolding preserved_def speed_bounded_def
  by (auto simp: set_heading_def set_speed_def attack_target_def Let_def nth_list_update
           split: if_splits)

lemma attack_amount_nonneg:
  assumes "0 \<le> attack_damage st" "\<forall>a b. 0 \<le> get_inverse_square m a b (attack_damage st)"
  shows "0 \<le> attack_amount st m x y"
proof -
  have "0 \<le> get_inverse_square m (coords x) (coords y) (attack_damage st)"
    using assms(2) by blast
  with assms(1) show ?thesis by (simp add: attack_amount_def py_int_nonneg)
qed

lemma hit_amount_nonneg:
  "0 \<le> attack_damage st \<Longrightarrow> \<forall>a b. 0 \<le> get_inverse_square m a b (attack_damage st)
     \<Longrightarrow> 0 \<le> hit_amount st m g a t"
  by (simp add: hit_amount_def attack_amount_nonneg)

lemma hit_amount_le: "0 \<le> attack_damage st \<Longrightarrow> hit_amount st m g a t \<le> attack_damage st"
  by (simp add: hit_amount_def attack_amount_le)

lemma preserved_damage_above: "preserved (damage_above lb)"
proof -
  have a: "damage_above lb st m (fst (attack_target st m a t g))"
    if "damage_above lb st m g" "t < length (robots g)" for st m g a t
    using that hit_amount_nonneg[of st m g a t]
    by (auto simp: damage_above_def attack_target_eq nth_list_update)
  show ?thesis
    unfolding preserved_def
    apply (intro conjI allI impI)
           apply (auto simp: damage_above_def set_heading_def nth_list_update split: if_splits)[1]
          apply (auto simp: damage_above_def set_speed_def Let_def nth_list_update split: if_splits)[1]
         apply (erule (1) a)
        apply (auto simp: damage_above_def nth_list_update)
    done
qed


lemma preserved_exec_command:
  assumes "preserved Q" "Q st m g" "exec_command st m i c g = Inr g'"
  shows "Q st m g' \<and> length (robots g') = length (robots g)"
  by (rule exec_preserves(1)[where Q = Q, OF preservedD(1-3)[OF assms(1)] assms(2,3)])


subsection \<open>Movement in general\<close>

lemma unpack_pair_line_seg_key:
  "line_seg_key k \<Longrightarrow> unpack_pair k = Inl TypeError \<or> unpack_pair k = Inl ValueError"
  by (auto simp: line_seg_key_def unpack_pair_def split: seg_id.splits)

lemma bumps_loop_raises:
  "ks \<noteq> [] \<Longrightarrow> line_seg_key (hd ks) \<Longrightarrow>
   bumps_loop ks = Inl TypeError \<or> bumps_loop ks = Inl ValueError"
  using unpack_pair_line_seg_key[of "hd ks"] by (cases ks) auto

lemma borders_keys: "\<forall>k\<in>fst ` set (borders st). line_seg_key k"
  by (auto simp: borders_def line_seg_key_def split: prod.splits)

lemma robot_segs_keys: "robot_segs now rs g = Inr segs \<Longrightarrow> map fst segs = map Int_id rs"
  by (induction rs arbitrary: segs) (auto split: sum.splits)

lemma get_intersections_keys:
  "set (map fst (get_intersections m ls)) \<subseteq> fst ` set ls"
  by (force simp: get_intersections_def)

lemma intersections_of_nonempty:
  assumes "(b_id, b) \<in> set ls" "a_id \<noteq> b_id"
    "seg_intersect m (fst a) (snd a) (fst b) (snd b) = Some p"
  shows "intersections_of m ls a_id a \<noteq> []"
proof -
  have "(b_id, p) \<in> set (intersections_of m ls a_id a)"
    unfolding intersections_of_def map_filter_def using assms by force
  then show ?thesis by auto
qed

lemma get_intersections_nonempty:
  assumes "(a_id, a) \<in> set ls" "(b_id, b) \<in> set ls" "a_id \<noteq> b_id"
    "seg_intersect m (fst a) (snd a) (fst b) (snd b) = Some p"
  shows "get_intersections m ls \<noteq> []"
proof -
  have "(a_id, intersections_of m ls a_id a) \<in> set (get_intersections m ls)"
    unfolding get_intersections_def
    using assms(1) intersections_of_nonempty[OF assms(2-4)] by force
  then show ?thesis by auto
qed

text \<open>Every intersection that is found ends the movement with an exception.\<close>

lemma move_robots_bump:
  assumes segs: "robot_segs now rs g = Inr segs"
    and ne: "get_intersections m (borders st @ segs) \<noteq> []"
  shows "move_robots st m now rs g = Inl TypeError \<or> move_robots st m now rs g = Inl ValueError"
proof -
  let ?ks = "map fst (get_intersections m (borders st @ segs))"
  from ne have k: "?ks \<noteq> []" by simp
  then have "hd ?ks \<in> set ?ks" by (rule hd_in_set)
  with get_intersections_keys[of m "borders st @ segs"]
  have "hd ?ks \<in> fst ` set (borders st) \<or> hd ?ks \<in> set (map fst segs)" by auto
  then have "line_seg_key (hd ?ks)"
    using borders_keys[of st] by (auto simp: robot_segs_keys[OF segs] line_seg_key_def)
  from bumps_loop_raises[OF k this] show ?thesis
    by (auto simp: move_robots_def segs Let_def)
qed

lemma commit_moves_frame:
  "commit_moves ls now rs g = Inr g' \<Longrightarrow>
     events g' = events g \<and> map speed (robots g') = map speed (robots g)
     \<and> map damage (robots g') = map damage (robots g)"
  by (induction rs arbitrary: g) (auto simp: map_update map_update_same split: option.splits)

lemma bumps_loop_Inr: "bumps_loop ks = Inr u \<Longrightarrow> \<forall>k\<in>set ks. \<not> line_seg_key k"
proof (induction ks)
  case Nil
  then show ?case by simp
next
  case (Cons k ks)
  then show ?case using unpack_pair_line_seg_key[of k] by (auto split: sum.splits)
qed

lemma move_robots_Inr:
  assumes "move_robots st m now rs g = Inr g'"
  shows "\<exists>segs. robot_segs now rs g = Inr segs
            \<and> get_intersections m (borders st @ segs) = []
            \<and> commit_moves (borders st @ segs) now rs g = Inr g'"
proof -
  from assms obtain segs where segs: "robot_segs now rs g = Inr segs"
    by (auto simp: move_robots_def split: sum.splits)
  have "get_intersections m (borders st @ segs) = []"
  proof (rule ccontr)
    assume "get_intersections m (borders st @ segs) \<noteq> []"
    from move_robots_bump[OF segs this] assms show False by simp
  qed
  with assms segs show ?thesis by (auto simp: move_robots_def Let_def split: sum.splits)
qed


lemma spec_corner:
  assumes "x_max \<noteq> 0" "y_max \<noteq> 0"
  shows "spec_seg_intersect (0, 0) (0, y_max) (0, y_max) (x_max, y_max) = Some (0, y_max)"
  using assms by (simp add: spec_seg_intersect_def Let_def)

lemma move_robots_spec_corner:
  assumes b: "battlefield_size st = (x_max, y_max)" "0 < x_max" "0 < y_max"
    and segs: "robot_segs now rs g = Inr segs"
  shows "move_robots st spec_maths now rs g = Inl ValueError"
proof -
  let ?ls = "borders st @ segs"
  have ls: "?ls = (Str ''left'', ((0, 0), (0, of_int y_max)))
                # (Str ''top'', ((0, of_int y_max), (of_int x_max, of_int y_max))) # tl (tl ?ls)"
    by (simp add: borders_def b)
  have "(Str ''top'', ((0, of_int y_max), (of_int x_max, of_int y_max))) \<in> set ?ls"
    by (subst ls) simp
  from intersections_of_nonempty[OF this, of "Str ''left''" spec_maths "((0, 0), (0, of_int y_max))"
         "(0, of_int y_max)"]
  have ne: "intersections_of spec_maths ?ls (Str ''left'') ((0, 0), (0, of_int y_max)) \<noteq> []"
    using b(2,3) by (simp add: spec_maths_def spec_corner)
  have "\<exists>rest. get_intersections spec_maths ?ls = (Str ''left'',
            intersections_of spec_maths ?ls (Str ''left'') ((0, 0), (0, of_int y_max))) # rest"
    unfolding get_intersections_def by (subst (2) ls) (simp add: ne)
  then obtain rest where "map fst (get_intersections spec_maths ?ls) = Str ''left'' # rest"
    by auto
  then show ?thesis
    by (simp add: move_robots_def segs Let_def unpack_pair_def)
qed



subsection \<open>Two runs\<close>

lemma solo_init: "Game_init arena (\<lambda>i. (4, 4)) [''Alpha''] = Inr solo_game"
  by (simp add: Game_init_def arena_def randrange_def solo_game_def at_rest_def)

lemma solo_run: "run_robots arena spec_maths hasty_script solo_game =
   Inr \<lparr>turn = 0, robots = [(at_rest ''Alpha'' (4, 4))\<lparr>speed := 10, then_t := Some 0\<rparr>],
        events = [Started 0 (4, 4)]\<rparr>"
  by (simp add: run_robots_def solo_game_def hasty_script_def set_speed_def arena_def
        active_robots_def at_rest_def turn_loop.simps)

lemma trio_init:
  "Game_init arena (\<lambda>i. if i = 0 then (4, 4) else if i = 1 then (4, 5) else (5, 5))
     [''Bravo'', ''Alpha'', ''Target''] = Inr trio_game"
  by (simp add: Game_init_def arena_def randrange_def trio_game_def at_rest_def)

lemma trio_run_damage:
  "and_then (run_robots arena spec_maths crossfire_script trio_game) (get_damage 2) = Inr 105"
  by (simp add: run_robots_def trio_game_def crossfire_script_def arena_def and_then_def get_damage_def
        active_robots_def at_rest_def turn_loop.simps attack_target_def attack_amount_def Let_def
        spec_maths_def spec_is_in_angle_def spec_get_inverse_square_def py_int_def
        numeral_nat)


subsection \<open>Speed\<close>

text \<open>
  Claim C6, amended. \<^verbatim>\<open>set_speed\<close> never fails for the id of a robot and stores the
  smaller of the requested value and the configured maximum, so what it stores is
  never above the maximum, and is not negative when neither the request nor the
  maximum is. A pass of the attack loop and a movement change no speed. With a maximum
  that is not negative, every robot's speed is at most the maximum at the end of every
  run from a newly constructed game, for every number of turns and whatever the
  controllers do. (A negative request is stored as it is.)
\<close>

theorem speed_never_above_maximum:
  "(\<forall>g i v. i < length (robots g) \<longrightarrow>
      (\<exists>g'. set_speed st i v g = Inr g'
            \<and> get_speed i g' = Inr (min v (max_speed st))
            \<and> min v (max_speed st) \<le> max_speed st
            \<and> (0 \<le> v \<and> 0 \<le> max_speed st \<longrightarrow> 0 \<le> min v (max_speed st))))
   \<and> (\<forall>a t g. map speed (robots (fst (attack_target st m a t g))) = map speed (robots g))
   \<and> (\<forall>now rs g g'. move_robots st m now rs g = Inr g' \<longrightarrow>
         map speed (robots g') = map speed (robots g))
   \<and> (0 \<le> max_speed st \<longrightarrow>
        (\<forall>choices robot_classes sc g g'.
            Game_init st choices robot_classes = Inr g \<longrightarrow> run_robots st m sc g = Inr g'
            \<longrightarrow> (\<forall>i<length (robots g'). speed (robots g' ! i) \<le> max_speed st)))"
proof -
  have c1: "\<forall>g i v. i < length (robots g) \<longrightarrow>
      (\<exists>g'. set_speed st i v g = Inr g'
            \<and> get_speed i g' = Inr (min v (max_speed st))
            \<and> min v (max_speed st) \<le> max_speed st
            \<and> (0 \<le> v \<and> 0 \<le> max_speed st \<longrightarrow> 0 \<le> min v (max_speed st)))"
    by (simp add: set_speed_def get_speed_def Let_def)
  have c2: "\<forall>a t g. map speed (robots (fst (attack_target st m a t g))) = map speed (robots g)"
    by (simp add: attack_target_def Let_def map_update map_update_same)
  have c3: "\<forall>now rs g g'. move_robots st m now rs g = Inr g' \<longrightarrow>
         map speed (robots g') = map speed (robots g)"
  proof (intro allI impI)
    fix now rs g g' assume "move_robots st m now rs g = Inr g'"
    from move_robots_Inr[OF this] obtain segs
      where "commit_moves (borders st @ segs) now rs g = Inr g'" by blast
    from commit_moves_frame[OF this] show "map speed (robots g') = map speed (robots g)" by simp
  qed
  have c4: "0 \<le> max_speed st \<longrightarrow>
        (\<forall>choices robot_classes sc g g'.
            Game_init st choices robot_classes = Inr g \<longrightarrow> run_robots st m sc g = Inr g'
            \<longrightarrow> (\<forall>i<length (robots g'). speed (robots g' ! i) \<le> max_speed st))"
  proof (intro allI impI)
    fix choices robot_classes sc g g' i
    assume mx: "0 \<le> max_speed st" and g: "Game_init st choices robot_classes = Inr g"
      and r: "run_robots st m sc g = Inr g'" and i: "i < length (robots g')"
    from Game_init_robots[OF g]
    have "length (robots g) = length robot_classes" "\<forall>i<length robot_classes. speed (robots g ! i) = 0"
      by (auto simp: fresh_def)
    with mx have "speed_bounded st m g" by (simp add: speed_bounded_def)
    from preserved_run_robots[OF preserved_speed_bounded this r] i
    show "speed (robots g' ! i) \<le> max_speed st" by (simp add: speed_bounded_def)
  qed
  from c1 c2 c3 c4 show ?thesis by (intro conjI)
qed

theorem speed_never_above_maximum_witness:
  "0 < length (robots solo_game)
   \<and> (\<exists>g'. set_speed arena 0 20 solo_game = Inr g' \<and> get_speed 0 g' = Inr 10)
   \<and> 0 \<le> max_speed arena
   \<and> Game_init arena (\<lambda>i. (4, 4)) [''Alpha''] = Inr solo_game
   \<and> run_robots arena spec_maths hasty_script solo_game =
        Inr \<lparr>turn = 0, robots = [(at_rest ''Alpha'' (4, 4))\<lparr>speed := 10, then_t := Some 0\<rparr>],
             events = [Started 0 (4, 4)]\<rparr>
   \<and> speed ((at_rest ''Alpha'' (4, 4))\<lparr>speed := 10, then_t := Some 0\<rparr>) \<le> max_speed arena"
proof -
  have l: "0 < length (robots solo_game)" by (simp add: solo_game_def)
  have mx: "0 \<le> max_speed arena" "max_speed arena = 10" by (simp_all add: arena_def)
  note th = speed_never_above_maximum[of arena spec_maths]
  from th l have "\<exists>g'. set_speed arena 0 20 solo_game = Inr g'
            \<and> get_speed 0 g' = Inr (min 20 (max_speed arena))" by blast
  then have 1: "\<exists>g'. set_speed arena 0 20 solo_game = Inr g' \<and> get_speed 0 g' = Inr 10"
    by (simp add: mx(2))
  from th mx(1) solo_init solo_run
  have "\<forall>i<length (robots \<lparr>turn = 0, robots = [(at_rest ''Alpha'' (4, 4))\<lparr>speed := 10, then_t := Some 0\<rparr>],
             events = [Started 0 (4, 4)]\<rparr>). speed (robots \<lparr>turn = 0, robots = [(at_rest ''Alpha'' (4, 4))\<lparr>speed := 10, then_t := Some 0\<rparr>],
             events = [Started 0 (4, 4)]\<rparr> ! i) \<le> max_speed arena"
    by blast
  then have 2: "speed ((at_rest ''Alpha'' (4, 4))\<lparr>speed := 10, then_t := Some 0\<rparr>) \<le> max_speed arena"
    by simp
  from l 1 mx(1) solo_init solo_run 2 show ?thesis by blast
qed

text \<open>The claim C6 as stated fails: a request of \<open>-1\<close> is stored.\<close>

theorem negative_speed_counterexample:
  "and_then (set_speed arena 0 (- 1) solo_game) (get_speed 0) = Inr (- 1) \<and> (- 1 :: real) < 0"
  by (simp add: and_then_def set_speed_def get_speed_def solo_game_def arena_def)


subsection \<open>Damage\<close>

lemma spec_get_inverse_square_nonneg: "0 \<le> peak \<Longrightarrow> 0 \<le> spec_get_inverse_square a b peak"
  by (simp add: spec_get_inverse_square_def Let_def)

lemma damage_above_refl:
  "0 \<le> attack_damage st \<Longrightarrow> \<forall>a b. 0 \<le> get_inverse_square m a b (attack_damage st)
     \<Longrightarrow> damage_above (\<lambda>i. damage (robots g ! i)) st m g"
  by (simp add: damage_above_def)

text \<open>
  Claim C3, amended. With a peak and a falloff that are not negative, one pass of the
  attack loop adds between 0 and the peak to the damage of its target, a movement
  changes no damage, and no attack call and no run ever lowers the damage of a robot;
  from a newly constructed game the damage of every robot is therefore never negative.
  (There is no upper bound of 100: a pass adds its amount whatever the sum.)
\<close>

theorem damage_never_decreases:
  "0 \<le> attack_damage st \<longrightarrow> (\<forall>a b. 0 \<le> get_inverse_square m a b (attack_damage st)) \<longrightarrow>
     (\<forall>g a t. t < length (robots g) \<longrightarrow>
         damage (robots g ! t) \<le> damage (robots (fst (attack_target st m a t g)) ! t)
         \<and> damage (robots (fst (attack_target st m a t g)) ! t)
              \<le> damage (robots g ! t) + attack_damage st)
   \<and> (\<forall>a rs g g'. attack st m a rs g = Inr g' \<longrightarrow>
         (\<forall>i<length (robots g). damage (robots g ! i) \<le> damage (robots g' ! i)))
   \<and> (\<forall>now rs g g'. move_robots st m now rs g = Inr g' \<longrightarrow>
         map damage (robots g') = map damage (robots g))
   \<and> (\<forall>sc g g'. run_robots st m sc g = Inr g' \<longrightarrow>
         (\<forall>i<length (robots g). damage (robots g ! i) \<le> damage (robots g' ! i)))
   \<and> (\<forall>choices robot_classes sc g g'.
         Game_init st choices robot_classes = Inr g \<longrightarrow> run_robots st m sc g = Inr g'
         \<longrightarrow> (\<forall>i<length (robots g'). 0 \<le> damage (robots g' ! i)))"
proof (intro impI)
  assume pk: "0 \<le> attack_damage st" and fo: "\<forall>a b. 0 \<le> get_inverse_square m a b (attack_damage st)"
  have pass: "damage (robots g ! t) \<le> damage (robots (fst (attack_target st m a t g)) ! t)
         \<and> damage (robots (fst (attack_target st m a t g)) ! t)
              \<le> damage (robots g ! t) + attack_damage st"
    if "t < length (robots g)" for g a t
    using that hit_amount_nonneg[OF pk fo, of g a t] hit_amount_le[OF pk, of m g a t]
    by (simp add: attack_target_eq)
  have att: "\<forall>i<length (robots g). damage (robots g ! i) \<le> damage (robots g' ! i)"
    if "attack st m a rs g = Inr g'" for a rs g g'
  proof -
    from that have e: "exec_command st m a (Attack rs) g = Inr g'" by (simp add: attack_def)
    from preserved_exec_command[OF preserved_damage_above damage_above_refl[OF pk fo] e]
    show ?thesis by (simp add: damage_above_def)
  qed
  have mv: "map damage (robots g') = map damage (robots g)"
    if "move_robots st m now rs g = Inr g'" for now rs g g'
  proof -
    from move_robots_Inr[OF that] obtain segs
      where "commit_moves (borders st @ segs) now rs g = Inr g'" by blast
    from commit_moves_frame[OF this] show ?thesis by simp
  qed
  have run: "\<forall>i<length (robots g). damage (robots g ! i) \<le> damage (robots g' ! i)"
    if "run_robots st m sc g = Inr g'" for sc g g'
    using preserved_run_robots[OF preserved_damage_above damage_above_refl[OF pk fo] that]
    by (simp add: damage_above_def)
  have ini: "\<forall>i<length (robots g'). 0 \<le> damage (robots g' ! i)"
    if g: "Game_init st choices robot_classes = Inr g" and r: "run_robots st m sc g = Inr g'"
    for choices robot_classes sc g g'
  proof -
    from Game_init_robots[OF g]
    have 0: "length (robots g) = length robot_classes"
      "\<forall>i<length robot_classes. damage (robots g ! i) = 0" by (auto simp: fresh_def)
    from preserved_run_robots[OF preserved_damage_above damage_above_refl[OF pk fo] r]
    have "length (robots g') = length (robots g)" by simp
    with run[OF r] 0 show ?thesis by simp
  qed
  have c1: "\<forall>g a t. t < length (robots g) \<longrightarrow>
         damage (robots g ! t) \<le> damage (robots (fst (attack_target st m a t g)) ! t)
         \<and> damage (robots (fst (attack_target st m a t g)) ! t)
              \<le> damage (robots g ! t) + attack_damage st"
    using pass by blast
  have c2: "\<forall>a rs g g'. attack st m a rs g = Inr g' \<longrightarrow>
         (\<forall>i<length (robots g). damage (robots g ! i) \<le> damage (robots g' ! i))"
    using att by blast
  have c3: "\<forall>now rs g g'. move_robots st m now rs g = Inr g' \<longrightarrow>
         map damage (robots g') = map damage (robots g)"
    using mv by blast
  have c4: "\<forall>sc g g'. run_robots st m sc g = Inr g' \<longrightarrow>
         (\<forall>i<length (robots g). damage (robots g ! i) \<le> damage (robots g' ! i))"
    using run by blast
  have c5: "\<forall>choices robot_classes sc g g'.
         Game_init st choices robot_classes = Inr g \<longrightarrow> run_robots st m sc g = Inr g'
         \<longrightarrow> (\<forall>i<length (robots g'). 0 \<le> damage (robots g' ! i))"
    using ini by blast
  from c1 c2 c3 c4 c5
  show "(\<forall>g a t. t < length (robots g) \<longrightarrow>
         damage (robots g ! t) \<le> damage (robots (fst (attack_target st m a t g)) ! t)
         \<and> damage (robots (fst (attack_target st m a t g)) ! t)
              \<le> damage (robots g ! t) + attack_damage st)
   \<and> (\<forall>a rs g g'. attack st m a rs g = Inr g' \<longrightarrow>
         (\<forall>i<length (robots g). damage (robots g ! i) \<le> damage (robots g' ! i)))
   \<and> (\<forall>now rs g g'. move_robots st m now rs g = Inr g' \<longrightarrow>
         map damage (robots g') = map damage (robots g))
   \<and> (\<forall>sc g g'. run_robots st m sc g = Inr g' \<longrightarrow>
         (\<forall>i<length (robots g). damage (robots g ! i) \<le> damage (robots g' ! i)))
   \<and> (\<forall>choices robot_classes sc g g'.
         Game_init st choices robot_classes = Inr g \<longrightarrow> run_robots st m sc g = Inr g'
         \<longrightarrow> (\<forall>i<length (robots g'). 0 \<le> damage (robots g' ! i)))"
    by (intro conjI)
qed

theorem damage_never_decreases_witness:
  "0 \<le> attack_damage arena
   \<and> (\<forall>a b. 0 \<le> get_inverse_square spec_maths a b (attack_damage arena))
   \<and> 1 < length (robots (pair_game (4, 4) (5, 4)))
   \<and> damage (robots (pair_game (4, 4) (5, 4)) ! 1)
        \<le> damage (robots (fst (attack_target arena spec_maths 0 1 (pair_game (4, 4) (5, 4)))) ! 1)
   \<and> Game_init arena (\<lambda>i. (4, 4)) [''Alpha''] = Inr solo_game
   \<and> run_robots arena spec_maths hasty_script solo_game =
        Inr \<lparr>turn = 0, robots = [(at_rest ''Alpha'' (4, 4))\<lparr>speed := 10, then_t := Some 0\<rparr>],
             events = [Started 0 (4, 4)]\<rparr>
   \<and> 0 \<le> damage ((at_rest ''Alpha'' (4, 4))\<lparr>speed := 10, then_t := Some 0\<rparr>)"
proof -
  have pk: "0 \<le> attack_damage arena" by (simp add: arena_def)
  have fo: "\<forall>a b. 0 \<le> get_inverse_square spec_maths a b (attack_damage arena)"
    using pk by (simp add: spec_maths_def spec_get_inverse_square_nonneg del: split_paired_All)
  have l: "1 < length (robots (pair_game (4, 4) (5, 4)))" by (simp add: pair_game_def)
  note th = damage_never_decreases[of arena spec_maths, THEN mp, OF pk, THEN mp, OF fo]
  from th l have 1: "damage (robots (pair_game (4, 4) (5, 4)) ! 1)
        \<le> damage (robots (fst (attack_target arena spec_maths 0 1 (pair_game (4, 4) (5, 4)))) ! 1)"
    by blast
  from th solo_init solo_run
  have "\<forall>i<length (robots \<lparr>turn = 0, robots = [(at_rest ''Alpha'' (4, 4))\<lparr>speed := 10, then_t := Some 0\<rparr>],
             events = [Started 0 (4, 4)]\<rparr>). 0 \<le> damage (robots \<lparr>turn = 0, robots = [(at_rest ''Alpha'' (4, 4))\<lparr>speed := 10, then_t := Some 0\<rparr>],
             events = [Started 0 (4, 4)]\<rparr> ! i)"
    by blast
  then have 2: "0 \<le> damage ((at_rest ''Alpha'' (4, 4))\<lparr>speed := 10, then_t := Some 0\<rparr>)"
    by simp
  from pk fo l 1 solo_init solo_run 2 show ?thesis by blast
qed


text \<open>
  The claim C3 as stated fails: Target gets 5 from Bravo and nine times 10 from Alpha,
  is still active with 95, and the tenth attack of Alpha takes it to 105.
\<close>

theorem damage_above_100_counterexample:
  "Game_init arena (\<lambda>i. if i = 0 then (4, 4) else if i = 1 then (4, 5) else (5, 5))
     [''Bravo'', ''Alpha'', ''Target''] = Inr trio_game
   \<and> and_then (run_robots arena spec_maths crossfire_script trio_game) (get_damage 2) = Inr 105
   \<and> \<not> (105 :: int) \<le> 100"
  using trio_init trio_run_damage by simp


subsection \<open>A game of one robot\<close>















subsection \<open>Collisions\<close>

lemma wall_segs:
  "robot_segs 2 [0, 1] wall_game = Inr [(Int_id 0, ((5, 5), (- 5, 5))), (Int_id 1, ((8, 8), (8, 8)))]"
  by (simp add: wall_game_def at_rest_def get_line_seg_def)

lemma crossing_segs:
  "robot_segs 2 [0, 1] crossing_game
     = Inr [(Int_id 0, ((5, 5), (- 5, 5))), (Int_id 1, ((2, 3), (2, 7)))]"
  by (simp add: crossing_game_def at_rest_def get_line_seg_def)

lemma arena_borders:
  "borders arena = [(Str ''left'', ((0, 0), (0, 10))), (Str ''top'', ((0, 10), (10, 10))),
                    (Str ''right'', ((10, 10), (10, 0))), (Str ''bottom'', ((10, 0), (0, 0)))]"
  by (simp add: borders_def arena_def)

lemma hits:
  "spec_seg_intersect (5, 5) (- 5, 5) (0, 0) (0, 10) = Some (0, 5)"
  "spec_seg_intersect (5, 5) (- 5, 5) (2, 3) (2, 7) = Some (2, 5)"
  by (simp_all add: spec_seg_intersect_def Let_def)

text \<open>
  Claim C5 (not met by the code). A robot whose segment meets another segment is not
  stopped and not notified: for every helper, as soon as the segment of a robot meets
  the segment of a border or of another robot, \<^verbatim>\<open>_move_robots\<close> ends with TypeError or
  ValueError; and a movement that ends normally has sent nothing and has left every
  speed as it was.
\<close>

theorem clipped_robot_not_stopped:
  "(\<forall>segs i a b_id b p.
       robot_segs now rs g = Inr segs \<longrightarrow> (Int_id i, a) \<in> set segs
       \<longrightarrow> (b_id, b) \<in> set (borders st @ segs) \<longrightarrow> b_id \<noteq> Int_id i
       \<longrightarrow> seg_intersect m (fst a) (snd a) (fst b) (snd b) = Some p
       \<longrightarrow> move_robots st m now rs g = Inl TypeError \<or> move_robots st m now rs g = Inl ValueError)
   \<and> (\<forall>g'. move_robots st m now rs g = Inr g'
         \<longrightarrow> events g' = events g \<and> map speed (robots g') = map speed (robots g))"
proof (rule conjI)
  show "\<forall>segs i a b_id b p.
       robot_segs now rs g = Inr segs \<longrightarrow> (Int_id i, a) \<in> set segs
       \<longrightarrow> (b_id, b) \<in> set (borders st @ segs) \<longrightarrow> b_id \<noteq> Int_id i
       \<longrightarrow> seg_intersect m (fst a) (snd a) (fst b) (snd b) = Some p
       \<longrightarrow> move_robots st m now rs g = Inl TypeError \<or> move_robots st m now rs g = Inl ValueError"
  proof (intro allI impI)
    fix segs i a b_id b p
    assume segs: "robot_segs now rs g = Inr segs" and a: "(Int_id i, a) \<in> set segs"
      and b: "(b_id, b) \<in> set (borders st @ segs)" and ne: "b_id \<noteq> Int_id i"
      and p: "seg_intersect m (fst a) (snd a) (fst b) (snd b) = Some p"
    from a have a': "(Int_id i, a) \<in> set (borders st @ segs)" by simp
    from get_intersections_nonempty[OF a' b ne[symmetric] p]
    show "move_robots st m now rs g = Inl TypeError \<or> move_robots st m now rs g = Inl ValueError"
      by (rule move_robots_bump[OF segs])
  qed
next
  show "\<forall>g'. move_robots st m now rs g = Inr g'
         \<longrightarrow> events g' = events g \<and> map speed (robots g') = map speed (robots g)"
  proof (intro allI impI)
    fix g' assume "move_robots st m now rs g = Inr g'"
    from move_robots_Inr[OF this] obtain segs
      where "commit_moves (borders st @ segs) now rs g = Inr g'" by blast
    from commit_moves_frame[OF this]
    show "events g' = events g \<and> map speed (robots g') = map speed (robots g)" by simp
  qed
qed

theorem clipped_robot_not_stopped_witness:
  "robot_segs 2 [0, 1] wall_game = Inr [(Int_id 0, ((5, 5), (- 5, 5))), (Int_id 1, ((8, 8), (8, 8)))]
   \<and> (Int_id 0, ((5 :: real, 5 :: real), (- 5 :: real, 5 :: real)))
        \<in> set [(Int_id 0, ((5, 5), (- 5, 5))), (Int_id 1, ((8, 8), (8, 8)))]
   \<and> (Str ''left'', ((0, 0), (0, 10)))
        \<in> set (borders arena @ [(Int_id 0, ((5, 5), (- 5, 5))), (Int_id 1, ((8, 8), (8, 8)))])
   \<and> Str ''left'' \<noteq> Int_id 0
   \<and> seg_intersect spec_maths (5, 5) (- 5, 5) (0, 0) (0, 10) = Some (0, 5)
   \<and> (move_robots arena spec_maths 2 [0, 1] wall_game = Inl TypeError
        \<or> move_robots arena spec_maths 2 [0, 1] wall_game = Inl ValueError)"
proof -
  let ?segs = "[(Int_id 0, ((5 :: real, 5 :: real), (- 5 :: real, 5 :: real))),
                (Int_id 1, ((8, 8), (8, 8)))]"
  have 1: "(Int_id 0, ((5, 5), (- 5, 5))) \<in> set ?segs" by simp
  have 2: "(Str ''left'', ((0, 0), (0, 10))) \<in> set (borders arena @ ?segs)"
    by (simp add: arena_borders)
  have 3: "Str ''left'' \<noteq> Int_id 0" by simp
  have 4: "seg_intersect spec_maths (5, 5) (- 5, 5) (0, 0) (0, 10) = Some (0, 5)"
    by (simp add: spec_maths_def hits)
  from clipped_robot_not_stopped[of 2 "[0, 1]" wall_game arena spec_maths] wall_segs 1 2 3 4
  have "move_robots arena spec_maths 2 [0, 1] wall_game = Inl TypeError
        \<or> move_robots arena spec_maths 2 [0, 1] wall_game = Inl ValueError"
    by (metis fst_conv snd_conv)
  with wall_segs 1 2 3 4 show ?thesis by blast
qed

text \<open>
  Claim C4 (not met by the code). When the segment of a robot meets two other segments,
  no endpoint is committed at all, nearest or not: \<^verbatim>\<open>_move_robots\<close> ends with
  TypeError or ValueError.
\<close>

theorem first_obstacle_not_chosen:
  assumes "robot_segs now rs g = Inr segs"
    and "(Int_id i, a) \<in> set segs"
    and "(b_id, b) \<in> set (borders st @ segs)" and "b_id \<noteq> Int_id i"
    and "(c_id, c) \<in> set (borders st @ segs)" and "c_id \<noteq> Int_id i" and "c_id \<noteq> b_id"
    and "seg_intersect m (fst a) (snd a) (fst b) (snd b) = Some p"
    and "seg_intersect m (fst a) (snd a) (fst c) (snd c) = Some q"
  shows "move_robots st m now rs g = Inl TypeError \<or> move_robots st m now rs g = Inl ValueError"
proof -
  from assms(2) have a': "(Int_id i, a) \<in> set (borders st @ segs)" by simp
  from get_intersections_nonempty[OF a' assms(3) assms(4)[symmetric] assms(8)]
  show ?thesis by (rule move_robots_bump[OF assms(1)])
qed

theorem first_obstacle_not_chosen_witness:
  "robot_segs 2 [0, 1] crossing_game
     = Inr [(Int_id 0, ((5, 5), (- 5, 5))), (Int_id 1, ((2, 3), (2, 7)))]
   \<and> (Int_id 0, ((5 :: real, 5 :: real), (- 5 :: real, 5 :: real)))
        \<in> set [(Int_id 0, ((5, 5), (- 5, 5))), (Int_id 1, ((2, 3), (2, 7)))]
   \<and> (Int_id 1, ((2, 3), (2, 7)))
        \<in> set (borders arena @ [(Int_id 0, ((5, 5), (- 5, 5))), (Int_id 1, ((2, 3), (2, 7)))])
   \<and> Int_id 1 \<noteq> Int_id 0
   \<and> (Str ''left'', ((0, 0), (0, 10)))
        \<in> set (borders arena @ [(Int_id 0, ((5, 5), (- 5, 5))), (Int_id 1, ((2, 3), (2, 7)))])
   \<and> Str ''left'' \<noteq> Int_id 0 \<and> Str ''left'' \<noteq> Int_id 1
   \<and> seg_intersect spec_maths (5, 5) (- 5, 5) (2, 3) (2, 7) = Some (2, 5)
   \<and> seg_intersect spec_maths (5, 5) (- 5, 5) (0, 0) (0, 10) = Some (0, 5)
   \<and> (move_robots arena spec_maths 2 [0, 1] crossing_game = Inl TypeError
        \<or> move_robots arena spec_maths 2 [0, 1] crossing_game = Inl ValueError)"
proof -
  let ?segs = "[(Int_id 0, ((5 :: real, 5 :: real), (- 5 :: real, 5 :: real))),
                (Int_id 1, ((2, 3), (2, 7)))]"
  have 1: "(Int_id 0, ((5, 5), (- 5, 5))) \<in> set ?segs" by simp
  have 2: "(Int_id 1, ((2, 3), (2, 7))) \<in> set (borders arena @ ?segs)" by simp
  have 3: "Int_id 1 \<noteq> Int_id 0" by simp
  have 4: "(Str ''left'', ((0, 0), (0, 10))) \<in> set (borders arena @ ?segs)"
    by (simp add: arena_borders)
  have 5: "Str ''left'' \<noteq> Int_id 0" "Str ''left'' \<noteq> Int_id 1" by simp_all
  have 6: "seg_intersect spec_maths (5, 5) (- 5, 5) (2, 3) (2, 7) = Some (2, 5)"
    "seg_intersect spec_maths (5, 5) (- 5, 5) (0, 0) (0, 10) = Some (0, 5)"
    by (simp_all add: spec_maths_def hits)
  have "move_robots arena spec_maths 2 [0, 1] crossing_game = Inl TypeError
        \<or> move_robots arena spec_maths 2 [0, 1] crossing_game = Inl ValueError"
    by (rule first_obstacle_not_chosen[OF crossing_segs 1 2 3 4 5(1,2)]) (simp_all add: 6)
  with crossing_segs 1 2 3 4 5 6 show ?thesis by blast
qed


subsection \<open>The turn loop\<close>

lemma wall_init:
  "Game_init arena (\<lambda>i. if i = 0 then (5, 5) else (8, 8)) [''Alpha'', ''Beta'']
     = Inr (pair_game (5, 5) (8, 8))"
  by (simp add: Game_init_def arena_def randrange_def pair_game_def at_rest_def)

text \<open>
  Claim C2 (not met by the code). A run in which Alpha drives at the left border ends
  with ValueError in its first turn, and \<^verbatim>\<open>main\<close> prints none of its three lines.
\<close>

theorem collision_aborts_run:
  "main arena spec_maths (\<lambda>i. if i = 0 then (5, 5) else (8, 8)) wall_script [''Alpha'', ''Beta'']
     = Inl ValueError"
proof -
  have "run_robots arena spec_maths wall_script (pair_game (5, 5) (8, 8)) = Inl ValueError"
    by (simp add: run_robots_def wall_script_def pair_game_def at_rest_def set_heading_def
          set_speed_def arena_def active_robots_def turn_loop.simps update_radar_def radar_of_def
          move_robots_def get_line_seg_def borders_def
          get_intersections_def intersections_of_def spec_maths_def spec_seg_intersect_def Let_def
          unpack_pair_def)
  then show ?thesis
    unfolding main_def wall_init by (simp add: run_def)
qed

lemma duel_start:
  "start_loop arena quiet_maths (clock duel_script 0) (on_started duel_script) [0, 1]
     (pair_game (4, 4) (5, 4)) = Inr duel_game"
  by (simp add: duel_script_def pair_game_def duel_game_def at_rest_def)

lemma duel_turn_1:
  "\<exists>g1. turn_loop (arena\<lparr>max_turns := 1\<rparr>) quiet_maths duel_script [0, 1] duel_game = Inr g1
         \<and> turn g1 = 1 \<and> active_robots g1 = []"
  by (simp add: duel_script_def duel_game_def at_rest_def
        arena_def active_robots_def turn_loop.simps update_radar_def radar_of_def
        move_robots_def get_line_seg_def borders_def
        get_intersections_def intersections_of_def quiet_maths_def spec_maths_def Let_def
        attack_target_def attack_amount_def spec_is_in_angle_def spec_get_inverse_square_def
        py_int_def numeral_nat)

lemma duel_turns:
  "\<exists>g'. turn_loop arena quiet_maths duel_script [0, 1] duel_game = Inr g'"
  by (simp add: duel_script_def duel_game_def at_rest_def
        arena_def active_robots_def turn_loop.simps update_radar_def radar_of_def
        move_robots_def get_line_seg_def borders_def
        get_intersections_def intersections_of_def quiet_maths_def spec_maths_def Let_def
        attack_target_def attack_amount_def spec_is_in_angle_def spec_get_inverse_square_def
        py_int_def numeral_nat)

text \<open>
  Claim C1 (not met by the code). The list \<^verbatim>\<open>robots\<close> that the loop condition measures
  is computed once, before the loop. A loop that starts with more than one robot in the
  list and ends normally has therefore run until the turn counter reached
  \<^verbatim>\<open>max_turns\<close>, whatever has happened to the robots meanwhile.
\<close>

theorem turn_loop_ignores_damage:
  assumes "turn_loop st m sc rs g = Inr g'" and "1 < length rs" and "turn g \<le> max_turns st"
  shows "turn g' = max_turns st"
  using assms
proof (induction st m sc rs g rule: turn_loop.induct)
  case (1 st m sc rs g)
  show ?case
  proof (cases "1 < length rs \<and> turn g < max_turns st")
    case False
    have "turn_loop st m sc rs g = Inr g"
      by (subst turn_loop.simps) (rule if_not_P[OF False])
    with "1.prems" False show ?thesis by simp
  next
    case True
    from True "1.prems"(1) obtain g1 g2 where
      r: "update_radar st m (on_radar_updated sc (turn g + 1)) rs (g\<lparr>turn := turn g + 1\<rparr>) = Inr g1"
      and mv: "move_robots st m (clock sc (turn g + 1)) rs g1 = Inr g2"
      and lp: "turn_loop st m sc rs g2 = Inr g'"
      by (subst (asm) turn_loop.simps) (auto split: sum.splits)
    from r have "turn g1 = turn g + 1" by (simp add: update_radar_def radar_loop_turn)
    with move_robots_turn[OF mv] True have "turn g2 \<le> max_turns st" by simp
    from "1.IH"[OF True r mv lp "1.prems"(2) this] show ?thesis .
  qed
qed

theorem turn_loop_ignores_damage_witness:
  "(\<exists>g1. turn_loop (arena\<lparr>max_turns := 1\<rparr>) quiet_maths duel_script [0, 1] duel_game = Inr g1
         \<and> turn g1 = 1 \<and> active_robots g1 = [])
   \<and> (\<exists>g'. turn_loop arena quiet_maths duel_script [0, 1] duel_game = Inr g'
         \<and> 1 < length [0 :: nat, 1] \<and> turn duel_game \<le> max_turns arena
         \<and> turn g' = 3)"
proof -
  from duel_turns obtain g' where
    g': "turn_loop arena quiet_maths duel_script [0, 1] duel_game = Inr g'" by blast
  have l: "1 < length [0 :: nat, 1]" by simp
  have t: "turn duel_game \<le> max_turns arena" by (simp add: duel_game_def)
  from turn_loop_ignores_damage[OF g' l t] have "turn g' = 3" by (simp add: arena_def)
  with g' l t duel_turn_1 show ?thesis by blast
qed

end
